theory Spec2Isabelle
  imports Main "HOL-Library.Word"
begin

unbundle bit_operations_syntax

section \<open>Machine types\<close>

type_synonym byte = "8 word"
type_synonym u16 = "16 word"
type_synonym u32 = "32 word"
type_synonym u64 = "64 word"

section \<open>Varint codec: \<^verbatim>\<open>ca_format_integer\<close> (format.c) and \<^verbatim>\<open>ca_parse_integer\<close> (select.c)\<close>

text \<open>
  \<^verbatim>\<open>ca_format_integer\<close> fills a ten byte stack buffer from its end: \<^verbatim>\<open>ptr\<close> starts at 9,
  the terminal group \<^verbatim>\<open>value & 0x7f\<close> goes to \<^verbatim>\<open>buffer[9]\<close>, and the loop stores
  \<^verbatim>\<open>0x80 | value\<close> (truncated to a byte) at \<^verbatim>\<open>buffer[--ptr]\<close> while \<^verbatim>\<open>value\<close> is not zero.
  The model keeps \<^verbatim>\<open>buffer[ptr..9]\<close> as a list and \<^verbatim>\<open>ptr\<close> as a number; a decrement of
  \<^verbatim>\<open>ptr = 0\<close> would write outside the buffer and is the value \<open>None\<close>.
\<close>

fun format_loop :: "u64 \<Rightarrow> nat \<Rightarrow> byte list \<Rightarrow> byte list option" where
  "format_loop v 0 buf = (if v = 0 then Some buf else None)"
| "format_loop v (Suc ptr) buf =
     (if v = 0 then Some buf
      else format_loop (drop_bit 7 v) ptr (ucast (0x80 OR v) # buf))"

definition ca_format_integer :: "u64 \<Rightarrow> byte list option" where
  "ca_format_integer v = format_loop (drop_bit 7 v) 9 [ucast (v AND 0x7f)]"

text \<open>
  \<^verbatim>\<open>ca_parse_integer\<close> reads through a pointer; the model reads from the list of the bytes
  at and after the pointer and returns the value with the bytes after the new pointer.
  Reading past the end of the list is \<open>None\<close>. \<open>parse_loop result cur rest\<close> is the
  \<^verbatim>\<open>while\<close> loop with \<^verbatim>\<open>*i = cur\<close> and \<open>rest\<close> the bytes after \<^verbatim>\<open>i\<close>.
\<close>

fun parse_loop :: "u64 \<Rightarrow> byte \<Rightarrow> byte list \<Rightarrow> (u64 \<times> byte list) option" where
  "parse_loop result cur [] = (if cur AND 0x80 \<noteq> 0 then None else Some (result, []))"
| "parse_loop result cur (n # rest) =
     (if cur AND 0x80 \<noteq> 0
      then parse_loop (push_bit 7 result OR ucast (n AND 0x7F)) n rest
      else Some (result, n # rest))"

fun ca_parse_integer :: "byte list \<Rightarrow> (u64 \<times> byte list) option" where
  "ca_parse_integer [] = None"
| "ca_parse_integer (b # rest) = parse_loop (ucast (b AND 0x7F)) b rest"

section \<open>Errors\<close>

text \<open>
  Every way the code leaves a function other than by returning is a value of \<open>error\<close>:
  the exceptions thrown by \<^verbatim>\<open>KJ_REQUIRE\<close>/\<^verbatim>\<open>KJ_FAIL_REQUIRE\<close>, \<^verbatim>\<open>KJ_ASSERT\<close>,
  \<^verbatim>\<open>KJ_FAIL_SYSCALL\<close> and \<^verbatim>\<open>KJ_UNIMPLEMENTED\<close>, and \<open>Fault\<close> for what C++ leaves
  undefined: an access outside the mapped file or outside an allocated buffer, and a
  remainder by zero. System calls whose outcome the state does not decide (\<^verbatim>\<open>open\<close>, \<^verbatim>\<open>mmap\<close>,
  \<^verbatim>\<open>madvise\<close>, \<^verbatim>\<open>write\<close>, \<^verbatim>\<open>rename\<close>, ...) are taken to succeed.
\<close>

datatype error =
    RequireFailed string
  | AssertFailed string
  | SyscallFailed string
  | Unimplemented string
  | Fault

section \<open>Byte strings\<close>

text \<open>
  The fields of \<^verbatim>\<open>CA_wo_header\<close> and the \<^verbatim>\<open>uint32_t\<close> vectors are copied to the file as
  they lie in memory; the model is little-endian, as the hosts the format is used on.
\<close>

fun le_bytes :: "nat \<Rightarrow> 'a::len word \<Rightarrow> byte list" where
  "le_bytes 0 w = []"
| "le_bytes (Suc n) w = ucast w # le_bytes n (drop_bit 8 w)"

fun le_word :: "byte list \<Rightarrow> 'a::len word" where
  "le_word [] = 0"
| "le_word (b # bs) = ucast b OR push_bit 8 (le_word bs)"

text \<open>\<^verbatim>\<open>memcmp\<close> over the common length, bytes compared as \<^verbatim>\<open>unsigned char\<close>.\<close>

fun memcmp :: "byte list \<Rightarrow> byte list \<Rightarrow> int" where
  "memcmp (a # as) (b # bs) = (if a < b then - 1 else if b < a then 1 else memcmp as bs)"
| "memcmp _ _ = 0"

text \<open>
  \<^verbatim>\<open>string_view::compare\<close>: the result of \<^verbatim>\<open>traits::compare\<close> over the shorter length,
  and the comparison of the lengths when that is zero. Only the sign is used by the code.
\<close>

definition sv_compare :: "byte list \<Rightarrow> byte list \<Rightarrow> int" where
  "sv_compare a b =
     (let r = memcmp a b in
      if r \<noteq> 0 then r
      else if length a < length b then - 1
      else if length b < length a then 1
      else 0)"

text \<open>The NUL-terminated string at the head of a memory region (\<^verbatim>\<open>strlen\<close>); \<open>None\<close> when
  no NUL byte is inside the region.\<close>

fun c_str :: "byte list \<Rightarrow> byte list option" where
  "c_str [] = None"
| "c_str (b # bs) = (if b = 0 then Some [] else map_option (Cons b) (c_str bs))"

text \<open>Byte-wise lexicographic order on keys, as the specification words it.\<close>

definition bytewise_less :: "byte list \<Rightarrow> byte list \<Rightarrow> bool" where
  "bytewise_less a b = lexordp (<) a b"

section \<open>Constants of the write-once backend (sort.cc)\<close>

definition MAGIC :: u64 where "MAGIC = 0x6c6261742e692e70"
definition MAJOR_VERSION :: byte where "MAJOR_VERSION = 4"
definition MINOR_VERSION :: byte where "MINOR_VERSION = 0"

definition kBlockSizeMin :: nat where "kBlockSizeMin = 16 * 1024"
definition kBlockSizeMax :: nat where "kBlockSizeMax = 2 * kBlockSizeMin - 1"
definition kEntrySizeLimit :: nat where "kEntrySizeLimit = kBlockSizeMin div 2"

definition CA_WO_FLAG_ASCENDING :: u16 where "CA_WO_FLAG_ASCENDING = 0x0001"
definition CA_WO_FLAG_DESCENDING :: u16 where "CA_WO_FLAG_DESCENDING = 0x0002"

text \<open>\<^verbatim>\<open>sizeof(struct CA_wo_header)\<close>: 8 + 1 + 1 + 2 + 1 + 1 + 2 + 8 bytes, no padding.\<close>

definition sizeof_header :: nat where "sizeof_header = 24"

text \<open>\<^verbatim>\<open>O_CLOEXEC\<close> on Linux.\<close>

definition O_CLOEXEC :: u32 where "O_CLOEXEC = 0x80000"

text \<open>
  Modelled from the spec: \<^verbatim>\<open>enum TableCompression\<close> is declared in a header that is not
  among the sources. The specification gives \<open>0 = none\<close> for the header's compression
  byte. The values of \<^verbatim>\<open>kTableCompressionDefault\<close> and \<^verbatim>\<open>kTableCompressionLast\<close> are not
  given anywhere; the functions that use them take them as the parameters \<open>kDefault\<close> and
  \<open>kLast\<close>.
\<close>

definition kTableCompressionNone :: byte where "kTableCompressionNone = 0"

text \<open>
  Modelled from the spec: \<^verbatim>\<open>oroch::varint_codec<size_t>::value_encode\<close> is third-party
  code that is not among the sources. The specification describes the file's varints as
  big-endian groups of seven bits, the most significant bit set in every byte but the
  last; this is that encoding. The counts below 128 used in the concrete files of this
  theory are one byte in every base-128 encoding.
\<close>

function varint_groups :: "u64 \<Rightarrow> byte list \<Rightarrow> byte list" where
  "varint_groups v acc =
     (if v = 0 then acc else varint_groups (drop_bit 7 v) (ucast (0x80 OR v) # acc))"
  by pat_completeness auto
termination
proof (relation "measure (\<lambda>(v, acc). unat v)")
  show "wf (measure (\<lambda>(v, acc). unat v))" by simp
next
  fix v :: u64 and acc :: "byte list"
  assume "v \<noteq> 0"
  then have "0 < unat v" by (simp add: unat_gt_0)
  then have "unat v div 2 ^ 7 < unat v" by (intro div_less_dividend) simp_all
  then show "((drop_bit 7 v, ucast (0x80 OR v) # acc), (v, acc)) \<in> measure (\<lambda>(v, acc). unat v)"
    by (simp add: drop_bit_eq_div unat_div)
qed

definition varint_value_encode :: "u64 \<Rightarrow> byte list" where
  "varint_value_encode v = varint_groups (drop_bit 7 v) [ucast (v AND 0x7f)]"

section \<open>The builder (sort.cc, \<^verbatim>\<open>WriteOnceBuilder\<close>)\<close>

text \<open>
  \<^verbatim>\<open>TableOptions\<close> is declared in a header that is not among the sources; the record holds
  what the builder reads from it. \<^verbatim>\<open>GetCompressionLevel()\<close> is kept as the byte that
  \<^verbatim>\<open>CreateFile\<close> stores in the header.
\<close>

record TableOptions =
  opt_compression :: byte
  opt_compression_level :: byte
  opt_file_flags :: u32

text \<open>
  \<^verbatim>\<open>struct Entry\<close>. \<open>prefix\<close> holds the bytes that \<^verbatim>\<open>AddEntry\<close> copies into
  \<^verbatim>\<open>char prefix[24]\<close>; the rest of the array is never written and never read.
\<close>

record Entry =
  offset :: u64
  value_size :: u32
  key_size :: u32
  prefix :: "byte list"

text \<open>
  The builder's state. A member \<^verbatim>\<open>name_\<close> of the class is the field \<open>b_name\<close>:
  the saved options, \<^verbatim>\<open>compression_\<close>, the contents of the spill file behind
  \<^verbatim>\<open>raw_fd_\<close>/\<^verbatim>\<open>raw_stream_\<close> (\<open>b_raw\<close>), the entry vector \<^verbatim>\<open>index_\<close>, the running spill
  offset \<^verbatim>\<open>offset_\<close> and \<^verbatim>\<open>key_size_max_\<close>.
\<close>

record WriteOnceBuilder =
  b_options :: TableOptions
  b_compression :: byte
  b_raw :: "byte list"
  b_index :: "Entry list"
  b_offset :: u64
  b_key_size_max :: u32

definition new_WriteOnceBuilder :: "byte \<Rightarrow> byte \<Rightarrow> TableOptions \<Rightarrow> error + WriteOnceBuilder" where
  "new_WriteOnceBuilder kDefault kLast options =
     (let compression = (if opt_compression options = kDefault then kTableCompressionNone
                         else opt_compression options)
      in if \<not> compression \<le> kLast then Inl (RequireFailed ''unsupported compression method'')
         else Inr \<lparr> b_options = options, b_compression = compression, b_raw = [],
                    b_index = [], b_offset = 0, b_key_size_max = 0 \<rparr>)"

definition AddEntry :: "byte list \<Rightarrow> byte list \<Rightarrow> WriteOnceBuilder \<Rightarrow> error + WriteOnceBuilder" where
  "AddEntry key val b =
     (if \<not> length key \<le> 2 ^ 32 - 1 then Inl (RequireFailed ''too long key'')
      else if \<not> length val \<le> 2 ^ 32 - 1 then Inl (RequireFailed ''too long value'')
      else
        let count = min 24 (length key);
            entry = \<lparr> offset = b_offset b, value_size = of_nat (length val),
                      key_size = of_nat (length key), prefix = take count key \<rparr>
        in Inr (b \<lparr> b_index := b_index b @ [entry],
                     b_offset := b_offset b + of_nat (length key) + of_nat (length val),
                     b_key_size_max := (if unat (b_key_size_max b) < length key
                                       then of_nat (length key) else b_key_size_max b) \<rparr>))"

text \<open>
  \<^verbatim>\<open>fwrite(ptr, size, 1, stream)\<close> returns the number of items written, and 0 when
  \<^verbatim>\<open>size\<close> is 0: an empty key or an empty value makes \<^verbatim>\<open>WriteEntryData\<close> throw.
\<close>

definition WriteEntryData :: "byte list \<Rightarrow> byte list \<Rightarrow> WriteOnceBuilder \<Rightarrow> error + WriteOnceBuilder" where
  "WriteEntryData key val b =
     (if length key = 0 then Inl (SyscallFailed ''fwrite'')
      else if length val = 0 then Inl (SyscallFailed ''fwrite'')
      else Inr (b \<lparr> b_raw := b_raw b @ key @ val \<rparr>))"

definition Add :: "byte list \<Rightarrow> byte list \<Rightarrow> WriteOnceBuilder \<Rightarrow> error + WriteOnceBuilder" where
  "Add key val b =
     (case AddEntry key val b of Inl e \<Rightarrow> Inl e | Inr b' \<Rightarrow> WriteEntryData key val b')"

text \<open>
  \<^verbatim>\<open>RandomIO::Read\<close> on the spill file: \<^verbatim>\<open>pread\<close> of \<open>len\<close> bytes at \<open>off\<close>. An offset
  that is negative as \<^verbatim>\<open>off_t\<close> fails; fewer than \<open>len\<close> bytes is "pread incomplete".
\<close>

definition RandomIO_Read :: "byte list \<Rightarrow> u64 \<Rightarrow> nat \<Rightarrow> error + byte list" where
  "RandomIO_Read file off len =
     (if 2 ^ 63 \<le> unat off then Inl (SyscallFailed ''pread'')
      else let got = take len (drop (unat off) file)
           in if length got \<noteq> len then Inl (RequireFailed ''pread incomplete'') else Inr got)"

text \<open>
  \<^verbatim>\<open>Compare\<close>. The two scratch buffers hold \<^verbatim>\<open>key_size_max_\<close> bytes (\<^verbatim>\<open>SortEntries\<close>
  allocates them); reading a longer key into one is \<open>Fault\<close>.
\<close>

definition Compare :: "WriteOnceBuilder \<Rightarrow> Entry \<Rightarrow> Entry \<Rightarrow> error + bool" where
  "Compare b lhs rhs =
     (let lhs_count = min 24 (unat (key_size lhs));
          rhs_count = min 24 (unat (key_size rhs));
          lhs_prefix = take lhs_count (prefix lhs);
          rhs_prefix = take rhs_count (prefix rhs);
          fast_result = sv_compare lhs_prefix rhs_prefix
      in if fast_result \<noteq> 0 then Inr (fast_result < 0)
         else if b_key_size_max b < key_size lhs then Inl Fault
         else
           (case RandomIO_Read (b_raw b) (offset lhs) (unat (key_size lhs)) of
              Inl e \<Rightarrow> Inl e
            | Inr lhs_view \<Rightarrow>
                if b_key_size_max b < key_size rhs then Inl Fault
                else
                  (case RandomIO_Read (b_raw b) (offset rhs) (unat (key_size rhs)) of
                     Inl e \<Rightarrow> Inl e
                   | Inr rhs_view \<Rightarrow> Inr (sv_compare lhs_view rhs_view < 0))))"

text \<open>
  \<^verbatim>\<open>std::stable_sort\<close> with \<^verbatim>\<open>Compare\<close>: for a strict weak order the result is the one
  sorted permutation that keeps equal entries in their order, which stable insertion
  computes. An error of a comparison ends the sort; which comparisons the library makes,
  and in what order, is not modelled.
\<close>

fun insert_entry :: "WriteOnceBuilder \<Rightarrow> Entry \<Rightarrow> Entry list \<Rightarrow> error + Entry list" where
  "insert_entry b x [] = Inr [x]"
| "insert_entry b x (y # ys) =
     (case Compare b y x of
        Inl e \<Rightarrow> Inl e
      | Inr True \<Rightarrow> (case insert_entry b x ys of Inl e \<Rightarrow> Inl e | Inr zs \<Rightarrow> Inr (y # zs))
      | Inr False \<Rightarrow> Inr (x # y # ys))"

fun stable_sort :: "WriteOnceBuilder \<Rightarrow> Entry list \<Rightarrow> error + Entry list" where
  "stable_sort b [] = Inr []"
| "stable_sort b (x # xs) =
     (case stable_sort b xs of Inl e \<Rightarrow> Inl e | Inr ys \<Rightarrow> insert_entry b x ys)"

definition SortEntries :: "WriteOnceBuilder \<Rightarrow> error + WriteOnceBuilder" where
  "SortEntries b =
     (case stable_sort b (b_index b) of Inl e \<Rightarrow> Inl e | Inr es \<Rightarrow> Inr (b \<lparr> b_index := es \<rparr>))"

text \<open>
  \<^verbatim>\<open>struct CA_wo_header\<close>, and the 24 bytes it occupies in memory and in the file.
\<close>

record CA_wo_header =
  h_magic :: u64
  h_major_version :: byte
  h_minor_version :: byte
  h_flags :: u16
  h_compression :: byte
  h_compression_level :: byte
  h_data_reserved :: u16
  h_index_offset :: u64

definition header_bytes :: "CA_wo_header \<Rightarrow> byte list" where
  "header_bytes h =
     le_bytes 8 (h_magic h)
     @ [h_major_version h, h_minor_version h]
     @ le_bytes 2 (h_flags h)
     @ [h_compression h, h_compression_level h]
     @ le_bytes 2 (h_data_reserved h)
     @ le_bytes 8 (h_index_offset h)"

text \<open>
  \<^verbatim>\<open>CreateFile\<close> writes the header to the fresh temporary file. The code assigns every
  field of the local \<^verbatim>\<open>header\<close> but \<^verbatim>\<open>index_offset\<close> (its assignment is commented out), so
  the last eight bytes written are whatever the stack held: the parameter \<open>stack\<close>.
\<close>

definition CreateFile :: "u64 \<Rightarrow> WriteOnceBuilder \<Rightarrow> error + byte list" where
  "CreateFile stack b =
     (if opt_file_flags (b_options b) AND NOT O_CLOEXEC \<noteq> 0
      then Inl (RequireFailed ''(nflags & ~(O_CLOEXEC)) == 0'')
      else Inr (header_bytes
                  \<lparr> h_magic = MAGIC,
                    h_major_version = MAJOR_VERSION,
                    h_minor_version = MINOR_VERSION,
                    h_flags = CA_WO_FLAG_ASCENDING,
                    h_compression = b_compression b,
                    h_compression_level = opt_compression_level (b_options b),
                    h_data_reserved = 0,
                    h_index_offset = stack \<rparr>))"

subsection \<open>\<^verbatim>\<open>WriteOnceBlock\<close> and \<^verbatim>\<open>WriteOnceIndex\<close>\<close>

record WriteOnceBlock =
  blk_key_size :: "u32 list"
  blk_key_data :: "byte list"
  blk_value_size :: "u32 list"
  blk_value_data :: "byte list"

definition empty_block :: WriteOnceBlock where
  "empty_block = \<lparr> blk_key_size = [], blk_key_data = [], blk_value_size = [], blk_value_data = [] \<rparr>"

definition block_Add :: "byte list \<Rightarrow> byte list \<Rightarrow> WriteOnceBlock \<Rightarrow> bool \<times> WriteOnceBlock" where
  "block_Add key val blk =
     (let kts = length (blk_key_data blk) + length key;
          vts = length (blk_value_data blk) + length val
      in if kts + vts > kBlockSizeMax then (False, blk)
         else (True, blk \<lparr> blk_key_size := blk_key_size blk @ [of_nat (length key)],
                            blk_key_data := blk_key_data blk @ key,
                            blk_value_size := blk_value_size blk @ [of_nat (length val)],
                            blk_value_data := blk_value_data blk @ val \<rparr>))"

definition block_Marshal :: "WriteOnceBlock \<Rightarrow> byte list" where
  "block_Marshal blk =
     (let num = length (blk_key_size blk)
      in if num = 0 then []
         else varint_value_encode (of_nat num)
              @ concat (map (le_bytes 4) (blk_key_size blk))
              @ concat (map (le_bytes 4) (blk_value_size blk))
              @ blk_key_data blk
              @ blk_value_data blk)"

record WriteOnceIndex =
  ix_block_size :: "u32 list"
  ix_key_size :: "u32 list"
  ix_key_data :: "byte list"

definition empty_index :: WriteOnceIndex where
  "empty_index = \<lparr> ix_block_size = [], ix_key_size = [], ix_key_data = [] \<rparr>"

definition index_Add :: "u32 \<Rightarrow> byte list \<Rightarrow> WriteOnceIndex \<Rightarrow> WriteOnceIndex" where
  "index_Add block_size last_key ix =
     ix \<lparr> ix_block_size := ix_block_size ix @ [block_size],
          ix_key_size := ix_key_size ix @ [of_nat (length last_key)],
          ix_key_data := ix_key_data ix @ last_key \<rparr>"

definition index_Marshal :: "WriteOnceIndex \<Rightarrow> byte list" where
  "index_Marshal ix =
     (let num = length (ix_key_size ix)
      in if num = 0 then []
         else varint_value_encode (of_nat num)
              @ concat (map (le_bytes 4) (ix_block_size ix))
              @ concat (map (le_bytes 4) (ix_key_size ix))
              @ ix_key_data ix)"

subsection \<open>\<^verbatim>\<open>WriteFinalData\<close>\<close>

text \<open>
  The locals of \<^verbatim>\<open>WriteFinalData\<close> and the bytes written to the destination so far
  (\<open>out_file\<close>; \<^verbatim>\<open>Write\<close> appends at the file position).
\<close>

record final_state =
  fs_index :: WriteOnceIndex
  fs_block :: WriteOnceBlock
  last_key :: "byte list"
  block_count :: nat
  large_count :: nat
  out_file :: "byte list"

definition WriteBlock :: "final_state \<Rightarrow> bool \<times> final_state" where
  "WriteBlock s =
     (let write_buffer = block_Marshal (fs_block s)
      in if length write_buffer = 0 then (False, s)
         else (True, s \<lparr> fs_index := index_Add (of_nat (length write_buffer)) (last_key s) (fs_index s),
                          out_file := out_file s @ write_buffer \<rparr>))"

definition WriteIndex :: "final_state \<Rightarrow> bool \<times> final_state" where
  "WriteIndex s =
     (let write_buffer = index_Marshal (fs_index s)
      in if length write_buffer = 0 then (False, s)
         else (True, s \<lparr> out_file := out_file s @ write_buffer \<rparr>))"

text \<open>
  One iteration of the loop over \<^verbatim>\<open>index_\<close>. \<^verbatim>\<open>size\<close> is the sum of two \<^verbatim>\<open>uint32_t\<close>, so
  it wraps at \<open>2 ^ 32\<close>. The entry is read into a buffer of \<^verbatim>\<open>size\<close> bytes; the views
  \<^verbatim>\<open>key\<close> and \<^verbatim>\<open>value\<close> span \<^verbatim>\<open>key_size + value_size\<close> bytes, more than the buffer holds
  when the sum has wrapped (\<open>Fault\<close>).
\<close>

definition final_step :: "byte list \<Rightarrow> Entry \<Rightarrow> final_state \<Rightarrow> error + final_state" where
  "final_step raw entry s =
     (let size = unat (key_size entry + value_size entry)
      in if size > kEntrySizeLimit then Inr (s \<lparr> large_count := large_count s + 1 \<rparr>)
         else
           (case RandomIO_Read raw (offset entry) size of
              Inl e \<Rightarrow> Inl e
            | Inr buffer \<Rightarrow>
                if unat (key_size entry) + unat (value_size entry) > size then Inl Fault
                else
                  let key = take (unat (key_size entry)) buffer;
                      val = take (unat (value_size entry)) (drop (unat (key_size entry)) buffer)
                  in (case block_Add key val (fs_block s) of
                        (True, blk) \<Rightarrow> Inr (s \<lparr> fs_block := blk, last_key := key \<rparr>)
                      | (False, _) \<Rightarrow>
                          let s1 = snd (WriteBlock s);
                              s2 = s1 \<lparr> fs_block := empty_block, block_count := block_count s1 + 1 \<rparr>
                          in (case block_Add key val (fs_block s2) of
                                (True, blk) \<Rightarrow> Inr (s2 \<lparr> fs_block := blk, last_key := key \<rparr>)
                              | (False, _) \<Rightarrow> Inl (RequireFailed ''an entry does not fit a block'')))))"

fun final_loop :: "byte list \<Rightarrow> Entry list \<Rightarrow> final_state \<Rightarrow> error + final_state" where
  "final_loop raw [] s = Inr s"
| "final_loop raw (entry # entries) s =
     (case final_step raw entry s of Inl e \<Rightarrow> Inl e | Inr s' \<Rightarrow> final_loop raw entries s')"

definition WriteFinalData :: "WriteOnceBuilder \<Rightarrow> byte list \<Rightarrow> error + final_state" where
  "WriteFinalData b file =
     (case final_loop (b_raw b) (b_index b)
             \<lparr> fs_index = empty_index, fs_block = empty_block, last_key = [],
               block_count = 0, large_count = 0, out_file = file \<rparr> of
        Inl e \<Rightarrow> Inl e
      | Inr s \<Rightarrow>
          let (written, s1) = WriteBlock s;
              s2 = (if written then s1 \<lparr> block_count := block_count s1 + 1 \<rparr> else s1)
          in Inr (snd (WriteIndex s2)))"

text \<open>
  \<^verbatim>\<open>Build\<close>. \<^verbatim>\<open>FlushEntryData\<close> and \<^verbatim>\<open>CommitFile\<close> only make system calls (\<^verbatim>\<open>fflush\<close>,
  \<^verbatim>\<open>fchmod\<close>, \<^verbatim>\<open>rename\<close>, \<^verbatim>\<open>fsync\<close>), taken to succeed; neither touches the contents of the
  destination. The result is the contents of the file at the destination path; on an
  error the temporary file is removed and nothing is at the destination.
\<close>

definition Build :: "u64 \<Rightarrow> WriteOnceBuilder \<Rightarrow> error + byte list" where
  "Build stack b =
     (case SortEntries b of
        Inl e \<Rightarrow> Inl e
      | Inr b' \<Rightarrow>
          (case CreateFile stack b' of
             Inl e \<Rightarrow> Inl e
           | Inr file \<Rightarrow>
               (case WriteFinalData b' file of
                  Inl e \<Rightarrow> Inl e
                | Inr s \<Rightarrow> Inr (out_file s))))"

text \<open>A builder is created, the pairs are added in order, and the table is built.\<close>

fun add_all :: "(byte list \<times> byte list) list \<Rightarrow> WriteOnceBuilder \<Rightarrow> error + WriteOnceBuilder" where
  "add_all [] b = Inr b"
| "add_all ((key, val) # kvs) b =
     (case Add key val b of Inl e \<Rightarrow> Inl e | Inr b' \<Rightarrow> add_all kvs b')"

definition build_table ::
  "byte \<Rightarrow> byte \<Rightarrow> TableOptions \<Rightarrow> u64 \<Rightarrow> (byte list \<times> byte list) list \<Rightarrow> error + byte list" where
  "build_table kDefault kLast options stack kvs =
     (case new_WriteOnceBuilder kDefault kLast options of
        Inl e \<Rightarrow> Inl e
      | Inr b \<Rightarrow> (case add_all kvs b of Inl e \<Rightarrow> Inl e | Inr b' \<Rightarrow> Build stack b'))"

section \<open>The reader (sort.cc, \<^verbatim>\<open>WriteOnceTable\<close>)\<close>

text \<open>
  \<^verbatim>\<open>mmap\<close> maps whole pages: the memory the reader can touch is the file followed by
  zero bytes up to the end of the file's last page, and nothing when the file ends on a
  page boundary. Pages are 4096 bytes (\<^verbatim>\<open>MAdviseIndex\<close> masks addresses with \<^verbatim>\<open>0xfff\<close>). An
  access that is not inside these pages is \<open>Fault\<close>.
\<close>

definition page_size :: nat where "page_size = 4096"

definition mapped_pages :: "byte list \<Rightarrow> byte list" where
  "mapped_pages file =
     file @ replicate ((page_size - length file mod page_size) mod page_size) 0"

text \<open>
  \<^verbatim>\<open>header\<close> points at the start of the mapping, so the header fields are read from the
  mapped bytes. \<^verbatim>\<open>MemoryMap\<close> requires more than \<^verbatim>\<open>sizeof(struct CA_wo_header)\<close> bytes
  before any of them is read.
\<close>

definition header_magic :: "byte list \<Rightarrow> u64" where
  "header_magic buf = le_word (take 8 buf)"

definition header_major_version :: "byte list \<Rightarrow> byte" where
  "header_major_version buf = buf ! 8"

definition header_flags :: "byte list \<Rightarrow> u16" where
  "header_flags buf = le_word (take 2 (drop 10 buf))"

definition header_compression :: "byte list \<Rightarrow> byte" where
  "header_compression buf = buf ! 12"

definition header_index_offset :: "byte list \<Rightarrow> u64" where
  "header_index_offset buf = le_word (take 8 (drop 16 buf))"

text \<open>
  The reader's state. \<open>t_buffer\<close> is the contents of the mapped file, so that
  \<^verbatim>\<open>buffer[i]\<close> is byte \<open>i\<close> of \<open>mapped_pages (t_buffer t)\<close>; \<open>t_offset\<close> is the member
  \<^verbatim>\<open>offset_\<close>; \<^verbatim>\<open>index.u64\<close> is \<^verbatim>\<open>buffer + header->index_offset\<close> and is read through
  \<open>header_index_offset\<close>.
\<close>

record WriteOnceTable =
  t_buffer :: "byte list"
  t_buffer_size :: u64
  t_buffer_fill :: u64
  t_compression :: byte
  t_index_size :: u64
  t_index_bits :: nat
  t_has_madvised_index :: bool
  t_offset :: u64

definition MemoryMap :: "byte list \<Rightarrow> error + WriteOnceTable" where
  "MemoryMap file =
     (if \<not> length file > sizeof_header then Inl (RequireFailed ''end > sizeof(struct CA_wo_header)'')
      else if \<not> (header_major_version file \<le> MAJOR_VERSION \<or> header_major_version file \<ge> 2)
        then Inl (RequireFailed ''major_version'')
      else if \<not> header_magic file = MAGIC then Inl (RequireFailed ''header->magic == MAGIC'')
      else
        let index_bits =
              (if header_major_version file \<ge> 3 then 64
               else if header_index_offset file AND NOT 0xffff = 0 then 16
               else if header_index_offset file AND NOT 0xffffffff = 0 then 32
               else 64 :: nat);
            end = (of_nat (length file) :: u64)
        in Inr \<lparr> t_buffer = file, t_buffer_size = end, t_buffer_fill = end,
                   t_compression = kTableCompressionNone,
                   t_index_size = (end - header_index_offset file) div of_nat (index_bits div 8),
                   t_index_bits = index_bits, t_has_madvised_index = False,
                   t_offset = of_nat sizeof_header \<rparr>)"

text \<open>The constructor \<^verbatim>\<open>WriteOnceTable(const char* path)\<close> on a file with the given
  contents; \<^verbatim>\<open>open\<close> and \<^verbatim>\<open>mmap\<close> are taken to succeed.\<close>

definition open_table :: "byte \<Rightarrow> byte list \<Rightarrow> error + WriteOnceTable" where
  "open_table kLast file =
     (case MemoryMap file of
        Inl e \<Rightarrow> Inl e
      | Inr t \<Rightarrow>
          let compression = header_compression (t_buffer t)
          in if \<not> compression \<le> kLast then Inl (RequireFailed ''unsupported compression method'')
             else if compression \<noteq> kTableCompressionNone
               then Inl (Unimplemented ''decompression is not implemented yet'')
             else Inr (t \<lparr> t_compression := compression \<rparr>))"

definition IsSorted :: "WriteOnceTable \<Rightarrow> bool" where
  "IsSorted t = (header_flags (t_buffer t) AND CA_WO_FLAG_ASCENDING \<noteq> 0)"

text \<open>\<^verbatim>\<open>Seek\<close>; \<open>rel_offset\<close> is an \<^verbatim>\<open>off_t\<close>, read as signed where the code compares it
  with zero. \<^verbatim>\<open>SEEK_SET\<close>, \<^verbatim>\<open>SEEK_CUR\<close> and \<^verbatim>\<open>SEEK_END\<close> are 0, 1 and 2.\<close>

definition Seek :: "u64 \<Rightarrow> int \<Rightarrow> WriteOnceTable \<Rightarrow> error + WriteOnceTable" where
  "Seek rel_offset whence t =
     (let new_offset =
            (if whence = 0 then
               (if \<not> sint rel_offset \<ge> 0 then Inl (RequireFailed ''rel_offset >= 0'')
                else Inr (of_nat sizeof_header + rel_offset))
             else if whence = 1 then Inr (t_offset t + rel_offset)
             else if whence = 2 then
               (if \<not> sint rel_offset \<le> 0 then Inl (RequireFailed ''rel_offset <= 0'')
                else Inr (header_index_offset (t_buffer t) - rel_offset))
             else Inl (RequireFailed ''Invalid whence value''))
      in case new_offset of
           Inl e \<Rightarrow> Inl e
         | Inr n \<Rightarrow>
             if \<not> n \<ge> of_nat sizeof_header
               then Inl (RequireFailed ''attempt to seek before start of table'')
             else if \<not> n \<le> header_index_offset (t_buffer t)
               then Inl (RequireFailed ''attempt to seek past end of table'')
             else Inr (t \<lparr> t_offset := n \<rparr>))"

definition SeekToFirst :: "WriteOnceTable \<Rightarrow> error + WriteOnceTable" where
  "SeekToFirst t = Seek 0 0 t"

text \<open>
  \<^verbatim>\<open>ReadRow\<close>. An \<^verbatim>\<open>iovec\<close> is the pair of the position of \<^verbatim>\<open>iov_base\<close> in the mapping
  and \<^verbatim>\<open>iov_len\<close>. The result is \<open>None\<close> for \<^verbatim>\<open>false\<close> (end of table) and the two
  \<^verbatim>\<open>iovec\<close>s for \<^verbatim>\<open>true\<close>.
\<close>

type_synonym iovec = "nat \<times> nat"

definition ReadRow :: "WriteOnceTable \<Rightarrow> error + (iovec \<times> iovec) option \<times> WriteOnceTable" where
  "ReadRow t =
     (if \<not> t_offset t \<ge> of_nat sizeof_header
        then Inl (RequireFailed ''offset_ >= sizeof(struct CA_wo_header)'')
      else if t_offset t \<ge> header_index_offset (t_buffer t) then Inr (None, t)
      else if \<not> unat (t_offset t) < length (mapped_pages (t_buffer t)) then Inl Fault
      else if mapped_pages (t_buffer t) ! unat (t_offset t) = 0 then Inr (None, t)
      else
        (case ca_parse_integer (drop (unat (t_offset t)) (mapped_pages (t_buffer t))) of
           None \<Rightarrow> Inl Fault
         | Some (record_size, rest) \<Rightarrow>
             (case c_str rest of
                None \<Rightarrow> Inl Fault
              | Some key \<Rightarrow>
                  let p = length (mapped_pages (t_buffer t)) - length rest
                  in if \<not> unat record_size > length key then Inl (AssertFailed ''size > key->iov_len'')
                     else Inr (Some ((p, length key),
                                     (p + length key + 1, unat record_size - length key - 1)),
                               t \<lparr> t_offset := of_nat p + record_size \<rparr>))))"

text \<open>The bytes an \<^verbatim>\<open>iovec\<close> denotes in a memory region; \<open>None\<close> when it reaches outside
  the region.\<close>

definition iovec_bytes :: "byte list \<Rightarrow> iovec \<Rightarrow> byte list option" where
  "iovec_bytes buf v =
     (if fst v + snd v \<le> length buf then Some (take (snd v) (drop (fst v) buf)) else None)"

text \<open>
  A scan as the callers do it: \<^verbatim>\<open>ReadRow\<close> until it returns \<^verbatim>\<open>false\<close>, each key and value
  copied out of the mapping. The loop is bounded by \<open>fuel\<close>; \<open>None\<close> is "more rows than
  fuel".
\<close>

fun read_rows :: "nat \<Rightarrow> WriteOnceTable \<Rightarrow> (error + (byte list \<times> byte list) list) option" where
  "read_rows 0 t = None"
| "read_rows (Suc fuel) t =
     (case ReadRow t of
        Inl e \<Rightarrow> Some (Inl e)
      | Inr (None, t') \<Rightarrow> Some (Inr [])
      | Inr (Some (k, v), t') \<Rightarrow>
          (case (iovec_bytes (mapped_pages (t_buffer t)) k,
                 iovec_bytes (mapped_pages (t_buffer t)) v) of
             (Some key, Some val) \<Rightarrow>
               (case read_rows fuel t' of
                  None \<Rightarrow> None
                | Some (Inl e) \<Rightarrow> Some (Inl e)
                | Some (Inr rows) \<Rightarrow> Some (Inr ((key, val) # rows)))
           | _ \<Rightarrow> Some (Inl Fault)))"

definition scan_table :: "nat \<Rightarrow> WriteOnceTable \<Rightarrow> (error + (byte list \<times> byte list) list) option" where
  "scan_table fuel t =
     (case SeekToFirst t of Inl e \<Rightarrow> Some (Inl e) | Inr t' \<Rightarrow> read_rows fuel t')"

subsection \<open>\<^verbatim>\<open>SeekToKey\<close>\<close>

definition CA_wo_hash :: "byte list \<Rightarrow> u64" where
  "CA_wo_hash str = fold (\<lambda>ch result. result * 31 + ucast ch) str 0x2257d6803a6f1b2"

text \<open>The slot \<^verbatim>\<open>index.u16[hash]\<close>, \<^verbatim>\<open>index.u32[hash]\<close> or \<^verbatim>\<open>index.u64[hash]\<close>, by
  \<^verbatim>\<open>index_bits\<close>; \<open>None\<close> when the slot is not inside the mapped pages.\<close>

definition index_slot :: "WriteOnceTable \<Rightarrow> u64 \<Rightarrow> u64 option" where
  "index_slot t hash =
     (let width = (if t_index_bits t = 16 then 2 else if t_index_bits t = 32 then 4 else 8 :: nat);
          at = unat (header_index_offset (t_buffer t)) + width * unat hash
      in if at + width \<le> length (mapped_pages (t_buffer t))
         then Some (le_word (take width (drop at (mapped_pages (t_buffer t)))))
         else None)"

text \<open>\<^verbatim>\<open>while ((*data) & 0x80) ++data; ++data;\<close> on the bytes at \<^verbatim>\<open>data\<close>: the bytes after
  the varint.\<close>

fun skip_varint :: "byte list \<Rightarrow> byte list option" where
  "skip_varint [] = None"
| "skip_varint (b # bs) = (if b AND 0x80 \<noteq> 0 then skip_varint bs else Some bs)"

text \<open>The stored key of the record at an offset of a memory region: the NUL-terminated
  string after the varint there; \<open>None\<close> when the varint or the string does not end inside
  the region.\<close>

definition key_at :: "byte list \<Rightarrow> nat \<Rightarrow> byte list option" where
  "key_at buf off = (case skip_varint (drop off buf) of None \<Rightarrow> None | Some rest \<Rightarrow> c_str rest)"

text \<open>The probe step at the end of the loop body: linear for major version 3 and up,
  the Fibonacci stepping below it. \<^verbatim>\<open>collisions\<close> is an \<^verbatim>\<open>unsigned int\<close>.\<close>

definition next_probe ::
  "WriteOnceTable \<Rightarrow> u64 \<times> (u64 \<times> u64) \<times> u32 \<Rightarrow> u64 \<times> (u64 \<times> u64) \<times> u32" where
  "next_probe t st =
     (case st of (hash, (fib0, fib1), collisions) \<Rightarrow>
        if header_major_version (t_buffer t) \<ge> 3
        then ((if hash + 1 = t_index_size t then 0 else hash + 1), (fib0, fib1), collisions)
        else
          let c = collisions + 1
          in if c AND 1 = 0
             then ((hash + fib0) mod t_index_size t, (fib0 + fib1, fib1), c)
             else ((hash + fib1) mod t_index_size t, (fib0, fib1 + fib0), c))"

text \<open>The \<^verbatim>\<open>for (;;)\<close> loop of \<^verbatim>\<open>SeekToKey\<close>, bounded by \<open>fuel\<close>: \<open>None\<close> is "still
  probing".\<close>

fun SeekToKey_loop ::
  "nat \<Rightarrow> WriteOnceTable \<Rightarrow> byte list \<Rightarrow> u64 \<times> (u64 \<times> u64) \<times> u32 \<Rightarrow> u64 \<Rightarrow> u64
     \<Rightarrow> (error + bool \<times> WriteOnceTable) option" where
  "SeekToKey_loop 0 t key st min_offset max_offset = None"
| "SeekToKey_loop (Suc fuel) t key st min_offset max_offset =
     (case index_slot t (fst st) of
        None \<Rightarrow> Some (Inl Fault)
      | Some tmp_offset \<Rightarrow>
          if tmp_offset = 0 then Some (Inr (False, t))
          else if tmp_offset \<ge> min_offset \<and> tmp_offset \<le> max_offset then
            (case key_at (mapped_pages (t_buffer t)) (unat tmp_offset) of
               None \<Rightarrow> Some (Inl Fault)
             | Some data \<Rightarrow>
                 let cmp = sv_compare key data;
                     ascending = (header_flags (t_buffer t) AND CA_WO_FLAG_ASCENDING \<noteq> 0)
                 in if cmp = 0 then Some (Inr (True, t \<lparr> t_offset := tmp_offset \<rparr>))
                    else if cmp < 0 then
                      SeekToKey_loop fuel t key (next_probe t st) min_offset
                        (if ascending then tmp_offset else max_offset)
                    else
                      SeekToKey_loop fuel t key (next_probe t st)
                        (if ascending then tmp_offset else min_offset) max_offset)
          else SeekToKey_loop fuel t key (next_probe t st) min_offset max_offset)"

text \<open>
  \<^verbatim>\<open>SeekToKey\<close>. \<^verbatim>\<open>Hash\<close> is declared in a header that is not among the sources and is
  the parameter \<open>Hash\<close>. \<^verbatim>\<open>MAdviseIndex\<close> only calls \<^verbatim>\<open>madvise\<close>, taken to succeed.
\<close>

definition SeekToKey ::
  "(byte list \<Rightarrow> u64) \<Rightarrow> nat \<Rightarrow> byte list \<Rightarrow> WriteOnceTable
     \<Rightarrow> (error + bool \<times> WriteOnceTable) option" where
  "SeekToKey Hash fuel key t =
     (let t1 = t \<lparr> t_has_madvised_index := True \<rparr>;
          hash = (if header_major_version (t_buffer t1) < 2 then CA_wo_hash key else Hash key)
      in if t_index_size t1 = 0 then Some (Inl Fault)
         else SeekToKey_loop fuel t1 key (hash mod t_index_size t1, (2, 1), 0) 0 (t_buffer_fill t1))"

section \<open>Writing a table and reading it back\<close>

text \<open>The steps of the repository's tests: create, insert, \<^verbatim>\<open>Sync\<close>, reopen.\<close>

definition write_then_open ::
  "byte \<Rightarrow> byte \<Rightarrow> TableOptions \<Rightarrow> u64 \<Rightarrow> (byte list \<times> byte list) list \<Rightarrow> error + WriteOnceTable" where
  "write_then_open kDefault kLast options stack kvs =
     (case build_table kDefault kLast options stack kvs of
        Inl e \<Rightarrow> Inl e
      | Inr file \<Rightarrow> open_table kLast file)"

definition write_then_scan ::
  "byte \<Rightarrow> byte \<Rightarrow> TableOptions \<Rightarrow> u64 \<Rightarrow> (byte list \<times> byte list) list \<Rightarrow> nat
     \<Rightarrow> (error + (byte list \<times> byte list) list) option" where
  "write_then_scan kDefault kLast options stack kvs fuel =
     (case write_then_open kDefault kLast options stack kvs of
        Inl e \<Rightarrow> Some (Inl e)
      | Inr t \<Rightarrow> scan_table fuel t)"

definition write_then_seek ::
  "(byte list \<Rightarrow> u64) \<Rightarrow> byte \<Rightarrow> byte \<Rightarrow> TableOptions \<Rightarrow> u64 \<Rightarrow> (byte list \<times> byte list) list
     \<Rightarrow> nat \<Rightarrow> byte list \<Rightarrow> (error + bool \<times> WriteOnceTable) option" where
  "write_then_seek Hash kDefault kLast options stack kvs fuel key =
     (case write_then_open kDefault kLast options stack kvs of
        Inl e \<Rightarrow> Some (Inl e)
      | Inr t \<Rightarrow> SeekToKey Hash fuel key t)"

section \<open>The entry invariant\<close>

text \<open>The key of an entry: the \<^verbatim>\<open>key_size\<close> bytes of the spill file at \<^verbatim>\<open>offset\<close>.\<close>

definition entry_key :: "WriteOnceBuilder \<Rightarrow> Entry \<Rightarrow> byte list" where
  "entry_key b e = take (unat (key_size e)) (drop (unat (offset e)) (b_raw b))"

definition entry_value :: "WriteOnceBuilder \<Rightarrow> Entry \<Rightarrow> byte list" where
  "entry_value b e =
     take (unat (value_size e)) (drop (unat (offset e) + unat (key_size e)) (b_raw b))"

text \<open>
  The invariant of an entry of \<^verbatim>\<open>index_\<close>: the key and the value lie inside the spill
  file, the first \<open>min 24 key_size\<close> bytes of \<open>prefix\<close> are the first bytes of the key,
  the key fits the comparison buffers, and the offset is a non-negative \<^verbatim>\<open>off_t\<close>.
\<close>

definition entry_invariant :: "WriteOnceBuilder \<Rightarrow> Entry \<Rightarrow> bool" where
  "entry_invariant b e \<longleftrightarrow>
     unat (offset e) + unat (key_size e) + unat (value_size e) \<le> length (b_raw b)
     \<and> take (min 24 (unat (key_size e))) (prefix e) = take (min 24 (unat (key_size e))) (entry_key b e)
     \<and> key_size e \<le> b_key_size_max b
     \<and> unat (offset e) < 2 ^ 63"

section \<open>Concrete builders and files\<close>

text \<open>A builder holding two 25 byte keys that agree on their first 24 bytes, each with a
  one byte value.\<close>

definition two_long_keys :: WriteOnceBuilder where
  "two_long_keys =
     \<lparr> b_options = \<lparr> opt_compression = 0, opt_compression_level = 0, opt_file_flags = 0 \<rparr>,
       b_compression = 0,
       b_raw = replicate 24 0x6b @ [0x61, 0x01] @ replicate 24 0x6b @ [0x62, 0x02],
       b_index = [], b_offset = 52, b_key_size_max = 25 \<rparr>"

definition long_entry_a :: Entry where
  "long_entry_a = \<lparr> offset = 0, value_size = 1, key_size = 25, prefix = replicate 24 0x6b \<rparr>"

definition long_entry_b :: Entry where
  "long_entry_b = \<lparr> offset = 26, value_size = 1, key_size = 25, prefix = replicate 24 0x6b \<rparr>"

text \<open>
  A file in the layout the reader decodes, major version 4, ascending: the header with
  \<open>index_offset = 36\<close>, the records \<open>5, "a", 0, "xxx"\<close> at offset 24 and
  \<open>5, "b", 0, "yyy"\<close> at offset 30, and a hash index of two 64-bit slots holding 24 and
  30; and the reader's state after opening it.
\<close>

definition two_record_file :: "byte list" where
  "two_record_file =
     header_bytes \<lparr> h_magic = MAGIC, h_major_version = 4, h_minor_version = 0, h_flags = 1,
                    h_compression = 0, h_compression_level = 0, h_data_reserved = 0,
                    h_index_offset = 36 \<rparr>
     @ [5, 0x61, 0, 0x78, 0x78, 0x78] @ [5, 0x62, 0, 0x79, 0x79, 0x79]
     @ le_bytes 8 (24 :: u64) @ le_bytes 8 (30 :: u64)"

definition two_record_table :: WriteOnceTable where
  "two_record_table =
     \<lparr> t_buffer = two_record_file, t_buffer_size = 52, t_buffer_fill = 52, t_compression = 0,
       t_index_size = 2, t_index_bits = 64, t_has_madvised_index = False, t_offset = 24 \<rparr>"

text \<open>
  A file of 32 bytes whose one hash slot holds 32, the size of the file: the header with
  \<open>index_offset = 24\<close> and the slot; and the reader's state after opening it.
\<close>

definition tail_slot_file :: "byte list" where
  "tail_slot_file =
     header_bytes \<lparr> h_magic = MAGIC, h_major_version = 4, h_minor_version = 0, h_flags = 1,
                    h_compression = 0, h_compression_level = 0, h_data_reserved = 0,
                    h_index_offset = 24 \<rparr>
     @ le_bytes 8 (32 :: u64)"

definition tail_slot_table :: WriteOnceTable where
  "tail_slot_table =
     \<lparr> t_buffer = tail_slot_file, t_buffer_size = 32, t_buffer_fill = 32, t_compression = 0,
       t_index_size = 1, t_index_bits = 64, t_has_madvised_index = False, t_offset = 24 \<rparr>"

text \<open>
  Options that ask for no compression and no file flags, with any compression level.
  With them \<^verbatim>\<open>compression_\<close> is none and the constructor's requirement holds whatever
  the two enumeration constants are; where a closed statement needs values for them, it
  takes 255 for \<open>kDefault\<close> and 1 for \<open>kLast\<close>.
\<close>

definition default_options :: "byte \<Rightarrow> TableOptions" where
  "default_options lvl = \<lparr> opt_compression = 0, opt_compression_level = lvl, opt_file_flags = 0 \<rparr>"

text \<open>The header \<^verbatim>\<open>CreateFile\<close> writes for a builder with the given \<^verbatim>\<open>compression_\<close> and
  compression level, when the stack held \<open>stack\<close>.\<close>

definition built_header :: "byte \<Rightarrow> byte \<Rightarrow> u64 \<Rightarrow> byte list" where
  "built_header c lvl stack =
     header_bytes \<lparr> h_magic = MAGIC, h_major_version = MAJOR_VERSION,
                    h_minor_version = MINOR_VERSION, h_flags = CA_WO_FLAG_ASCENDING,
                    h_compression = c, h_compression_level = lvl, h_data_reserved = 0,
                    h_index_offset = stack \<rparr>"

text \<open>
  The file built from the one pair \<open>("a", "xxx")\<close>: the header, one block (count 1, key
  size 1, value size 3, \<open>"a"\<close>, \<open>"xxx"\<close>) and the block index (count 1, block size 13, key
  size 1, \<open>"a"\<close>); and the reader's state after opening it when the stack held 0.
\<close>

definition single_pair_file :: "byte \<Rightarrow> u64 \<Rightarrow> byte list" where
  "single_pair_file lvl stack =
     built_header 0 lvl stack
     @ [1, 1, 0, 0, 0, 3, 0, 0, 0, 0x61, 0x78, 0x78, 0x78]
     @ [1, 13, 0, 0, 0, 1, 0, 0, 0, 0x61]"

definition single_pair_table :: WriteOnceTable where
  "single_pair_table =
     \<lparr> t_buffer = single_pair_file 0 0, t_buffer_size = 47, t_buffer_fill = 47, t_compression = 0,
       t_index_size = 5, t_index_bits = 64, t_has_madvised_index = False, t_offset = 24 \<rparr>"

definition single_pair_seeking :: WriteOnceTable where
  "single_pair_seeking = single_pair_table \<lparr> t_has_madvised_index := True \<rparr>"

text \<open>The pairs of the test \<^verbatim>\<open>CanWriteThenReadUnsorted\<close>, \<open>("a", "xxx")\<close>, \<open>("c", "zzz")\<close>,
  \<open>("d", "www")\<close>, \<open>("b", "yyy")\<close>, and what \<^verbatim>\<open>WriteFinalData\<close> writes for them.\<close>

definition unsorted_pairs :: "(byte list \<times> byte list) list" where
  "unsorted_pairs =
     [([0x61], [0x78, 0x78, 0x78]), ([0x63], [0x7a, 0x7a, 0x7a]),
      ([0x64], [0x77, 0x77, 0x77]), ([0x62], [0x79, 0x79, 0x79])]"

definition unsorted_pairs_blocks :: "byte list" where
  "unsorted_pairs_blocks =
     [4, 1, 0, 0, 0, 1, 0, 0, 0, 1, 0, 0, 0, 1, 0, 0, 0, 3, 0, 0, 0, 3, 0, 0, 0, 3, 0, 0, 0, 3, 0, 0, 0,
      0x61, 0x62, 0x63, 0x64, 0x78, 0x78, 0x78, 0x79, 0x79, 0x79, 0x7a, 0x7a, 0x7a, 0x77, 0x77, 0x77,
      1, 49, 0, 0, 0, 1, 0, 0, 0, 0x64]"

text \<open>A file with one record and one hash slot, and major version 9 in its header.\<close>

definition version_9_file :: "byte list" where
  "version_9_file =
     header_bytes \<lparr> h_magic = MAGIC, h_major_version = 9, h_minor_version = 0, h_flags = 1,
                    h_compression = 0, h_compression_level = 0, h_data_reserved = 0,
                    h_index_offset = 30 \<rparr>
     @ [5, 0x61, 0, 0x78, 0x78, 0x78] @ le_bytes 8 (24 :: u64)"

section \<open>What block emission is measured against\<close>

text \<open>The pair an entry stands for, read from the spill file.\<close>

definition entry_pair :: "WriteOnceBuilder \<Rightarrow> Entry \<Rightarrow> byte list \<times> byte list" where
  "entry_pair b e = (entry_key b e, entry_value b e)"

text \<open>An entry is large when its key and value together exceed \<^verbatim>\<open>kEntrySizeLimit\<close>. The
  code adds the two \<^verbatim>\<open>uint32_t\<close> sizes in 32 bits; \<open>sizes_fit_u32\<close> says that sum does not
  wrap.\<close>

definition is_large :: "Entry \<Rightarrow> bool" where
  "is_large e \<longleftrightarrow> unat (key_size e) + unat (value_size e) > kEntrySizeLimit"

definition sizes_fit_u32 :: "Entry \<Rightarrow> bool" where
  "sizes_fit_u32 e \<longleftrightarrow> unat (key_size e) + unat (value_size e) < 2 ^ 32"

text \<open>The key and value bytes a list of pairs takes in a block, and the block that
  \<^verbatim>\<open>Add\<close> of each pair in turn makes of a cleared block.\<close>

definition pairs_size :: "(byte list \<times> byte list) list \<Rightarrow> nat" where
  "pairs_size ps = length (concat (map fst ps)) + length (concat (map snd ps))"

definition block_of :: "(byte list \<times> byte list) list \<Rightarrow> WriteOnceBlock" where
  "block_of ps = fold (\<lambda>(k, v) blk. snd (block_Add k v blk)) ps empty_block"

text \<open>The block index of the blocks that hold the lists of pairs \<open>pss\<close>: for each block, in
  turn, \<^verbatim>\<open>WriteOnceIndex::Add\<close> of its marshalled size and the key of its last pair.\<close>

definition index_of :: "(byte list \<times> byte list) list list \<Rightarrow> WriteOnceIndex" where
  "index_of pss =
     fold (\<lambda>ps ix. index_Add (of_nat (length (block_Marshal (block_of ps)))) (fst (last ps)) ix)
       pss empty_index"

text \<open>
  The invariant of the loop of \<^verbatim>\<open>WriteFinalData\<close>: the blocks written so far hold the
  lists of pairs \<open>pss\<close>, none empty and none over \<^verbatim>\<open>kBlockSizeMax\<close>, the index descriptor
  is theirs, the block being filled holds \<open>cur\<close>, and \<^verbatim>\<open>last_key\<close> is the key of its last
  pair.
\<close>

definition emission_invariant ::
  "byte list \<Rightarrow> final_state \<Rightarrow> (byte list \<times> byte list) list list
     \<Rightarrow> (byte list \<times> byte list) list \<Rightarrow> bool" where
  "emission_invariant hdr s pss cur \<longleftrightarrow>
     fs_block s = block_of cur
     \<and> (cur = [] \<or> last_key s = fst (last cur))
     \<and> fs_index s = index_of pss
     \<and> pairs_size cur \<le> kBlockSizeMax
     \<and> out_file s = hdr @ concat (map (\<lambda>ps. block_Marshal (block_of ps)) pss)
     \<and> list_all (\<lambda>ps. ps \<noteq> [] \<and> pairs_size ps \<le> kBlockSizeMax) pss
     \<and> block_count s = length pss"

text \<open>
  The invariant of a builder between \<^verbatim>\<open>Add\<close> calls: \<^verbatim>\<open>offset_\<close> is the length of the spill
  file, which fits an \<^verbatim>\<open>off_t\<close>, and every entry of \<^verbatim>\<open>index_\<close> satisfies the entry invariant,
  its two sizes adding up in 32 bits.
\<close>

definition builder_invariant :: "WriteOnceBuilder \<Rightarrow> bool" where
  "builder_invariant b \<longleftrightarrow>
     unat (b_offset b) = length (b_raw b)
     \<and> length (b_raw b) < 2 ^ 63
     \<and> list_all (entry_invariant b) (b_index b)
     \<and> list_all sizes_fit_u32 (b_index b)"

text \<open>A builder after \<open>("a", "yyy")\<close> and \<open>("b", 8192 times "x")\<close> were added and
  sorted: the large entry comes after the small one, while the block that holds the
  small one is still being filled.\<close>

definition mixed_builder :: WriteOnceBuilder where
  "mixed_builder =
     \<lparr> b_options = default_options 0, b_compression = 0,
       b_raw = [0x61, 0x79, 0x79, 0x79, 0x62] @ replicate 8192 0x78,
       b_index = [\<lparr> offset = 0, value_size = 3, key_size = 1, prefix = [0x61] \<rparr>,
                  \<lparr> offset = 4, value_size = 8192, key_size = 1, prefix = [0x62] \<rparr>],
       b_offset = 8197, b_key_size_max = 1 \<rparr>"

section \<open>The varint round trip\<close>

lemma bit_0x7f: "bit (0x7f :: int) n \<longleftrightarrow> n < 7"
proof -
  have "(0x7f :: int) = mask 7" by (simp add: mask_eq_exp_minus_1)
  then show ?thesis by (simp only: bit_mask_iff) auto
qed

lemma bit_0x80: "bit (0x80 :: int) n \<longleftrightarrow> n = 7"
proof -
  have "(0x80 :: int) = 2 ^ 7" by simp
  then show ?thesis by (simp only: bit_exp_iff) auto
qed

lemma low7: "ucast ((ucast (0x80 OR (v::u64)) :: byte) AND 0x7F) = (take_bit 7 v :: u64)"
  by (rule bit_eqI) (auto simp add: bit_simps bit_0x7f bit_0x80)

lemma last7: "(ucast ((ucast ((v::u64) AND 0x7f) :: byte) AND 0x7F) :: u64) = take_bit 7 v"
  by (rule bit_eqI) (auto simp add: bit_simps bit_0x7f bit_0x80)

lemma group_step:
  "push_bit (7 * k) (push_bit 7 r OR take_bit 7 (drop_bit (7 * k) orig)) OR take_bit (7 * k) orig
   = push_bit (7 * Suc k) r OR take_bit (7 * Suc k) (orig :: u64)"
  by (rule bit_eqI) (auto simp add: bit_simps add.commute)

lemma msb_set: "(ucast (0x80 OR (v::u64)) :: byte) AND 0x80 \<noteq> 0"
proof -
  have "bit ((ucast (0x80 OR v) :: byte) AND 0x80) 7" by (simp add: bit_simps bit_0x80)
  then show ?thesis by force
qed

lemma msb_clear: "(ucast ((v::u64) AND 0x7f) :: byte) AND 0x80 = 0"
  by (rule bit_eqI) (auto simp add: bit_simps bit_0x7f bit_0x80)

lemma parse_loop_cont: "c AND 0x80 \<noteq> 0 \<Longrightarrow> parse_loop r c bs = parse_loop r 0x80 bs"
  by (cases bs) simp_all

lemma parse_loop_stop: "c AND 0x80 = 0 \<Longrightarrow> parse_loop r c bs = Some (r, bs)"
  by (cases bs) simp_all

lemma ca_parse_integer_loop: "ca_parse_integer bs = parse_loop 0 0x80 bs"
  by (cases bs) simp_all

text \<open>
  The loop invariant of \<^verbatim>\<open>ca_format_integer\<close>, read through the parser: after \<open>k\<close>
  groups the buffer decodes to the low \<open>7 * k\<close> bits of the value behind whatever came
  before, and the bits still to encode are the rest. Ten groups cover 64 bits, so \<open>ptr\<close>
  does not pass the start of the buffer.
\<close>

lemma format_loop_parse:
  assumes "\<And>r. parse_loop r 0x80 (acc @ rest) = Some (push_bit (7 * k) r OR take_bit (7 * k) orig, rest)"
    and "v = drop_bit (7 * k) orig" and "k + ptr = 10"
  shows "\<exists>bs. format_loop v ptr acc = Some bs \<and> parse_loop 0 0x80 (bs @ rest) = Some (orig, rest)"
  using assms
proof (induction ptr arbitrary: v acc k)
  case 0
  then have "v = 0" by simp
  moreover have "take_bit (7 * k) orig = orig"
    using 0 by (simp add: take_bit_eq_self_iff_drop_bit_eq_0)
  ultimately show ?case using 0(1) [of 0] by simp
next
  case (Suc ptr)
  show ?case
  proof (cases "v = 0")
    case True
    then have "take_bit (7 * k) orig = orig"
      using Suc.prems(2) by (simp add: take_bit_eq_self_iff_drop_bit_eq_0)
    then show ?thesis using True Suc.prems(1) [of 0] by simp
  next
    case False
    let ?b = "ucast (0x80 OR v) :: byte"
    have step: "parse_loop r 0x80 ((?b # acc) @ rest)
        = Some (push_bit (7 * Suc k) r OR take_bit (7 * Suc k) orig, rest)" for r
    proof -
      have "parse_loop r 0x80 ((?b # acc) @ rest)
          = parse_loop (push_bit 7 r OR ucast (?b AND 0x7F)) ?b (acc @ rest)"
        by simp
      also have "\<dots> = parse_loop (push_bit 7 r OR take_bit 7 v) 0x80 (acc @ rest)"
        by (simp only: low7 parse_loop_cont [OF msb_set])
      also have "\<dots> = Some (push_bit (7 * k) (push_bit 7 r OR take_bit 7 v) OR take_bit (7 * k) orig, rest)"
        by (rule Suc.prems(1))
      finally show ?thesis
        by (simp only: Suc.prems(2) group_step)
    qed
    have "drop_bit 7 v = drop_bit (7 * Suc k) orig"
      using Suc.prems(2) by (simp add: drop_bit_drop_bit add.commute)
    moreover have "Suc k + ptr = 10" using Suc.prems(3) by simp
    ultimately have "\<exists>bs. format_loop (drop_bit 7 v) ptr (?b # acc) = Some bs
        \<and> parse_loop 0 0x80 (bs @ rest) = Some (orig, rest)"
      using Suc.IH [of "?b # acc" "Suc k" "drop_bit 7 v"] step by blast
    then show ?thesis using False by simp
  qed
qed

lemma format_loop_msb:
  "format_loop v ptr acc = Some bs \<Longrightarrow>
   \<exists>pre. bs = pre @ acc \<and> list_all (\<lambda>b. b AND 0x80 \<noteq> 0) pre \<and> length pre \<le> ptr"
proof (induction ptr arbitrary: v acc)
  case 0
  then show ?case by (simp split: if_splits)
next
  case (Suc ptr)
  show ?case
  proof (cases "v = 0")
    case True
    then show ?thesis using Suc.prems by simp
  next
    case False
    then have "format_loop (drop_bit 7 v) ptr (ucast (0x80 OR v) # acc) = Some bs"
      using Suc.prems by simp
    from Suc.IH [OF this] obtain pre where
      "bs = pre @ ucast (0x80 OR v) # acc" "list_all (\<lambda>b. b AND 0x80 \<noteq> 0) pre" "length pre \<le> ptr"
      by blast
    then have "bs = (pre @ [ucast (0x80 OR v)]) @ acc
      \<and> list_all (\<lambda>b. b AND 0x80 \<noteq> 0) (pre @ [ucast (0x80 OR v)])
      \<and> length (pre @ [ucast (0x80 OR v)]) \<le> Suc ptr"
      using msb_set [of v] by simp
    then show ?thesis by blast
  qed
qed

text \<open>
  C9. For every 64-bit value \<open>v\<close>, \<^verbatim>\<open>ca_format_integer\<close> writes between one and ten
  bytes, every byte but the last with its most significant bit set and the last with it
  clear, and \<^verbatim>\<open>ca_parse_integer\<close> on those bytes, whatever follows them, returns \<open>v\<close> and
  stops right behind them.
\<close>

theorem varint_roundtrip:
  "\<exists>bs. ca_format_integer v = Some bs \<and> bs \<noteq> [] \<and> length bs \<le> 10
     \<and> list_all (\<lambda>b. b AND 0x80 \<noteq> 0) (butlast bs) \<and> last bs AND 0x80 = 0
     \<and> ca_parse_integer (bs @ rest) = Some (v, rest)"
proof -
  let ?t = "ucast (v AND 0x7f) :: byte"
  have "parse_loop r 0x80 ([?t] @ rest) = Some (push_bit (7 * 1) r OR take_bit (7 * 1) v, rest)" for r
    by (simp add: last7 parse_loop_stop [OF msb_clear])
  then obtain bs where bs: "format_loop (drop_bit 7 v) 9 [?t] = Some bs"
      "parse_loop 0 0x80 (bs @ rest) = Some (v, rest)"
    using format_loop_parse [of "[?t]" rest 1 v "drop_bit 7 v" 9] by auto
  from format_loop_msb [OF bs(1)] obtain pre where
    pre: "bs = pre @ [?t]" "list_all (\<lambda>b. b AND 0x80 \<noteq> 0) pre" "length pre \<le> 9"
    by blast
  show ?thesis
    using bs pre msb_clear [of v]
    by (simp add: ca_format_integer_def ca_parse_integer_loop)
qed

section \<open>The comparator\<close>

lemma sv_compare_Nil_Nil: "sv_compare [] [] = 0"
  by (simp add: sv_compare_def)

lemma sv_compare_Nil_Cons: "sv_compare [] (y # ys) = - 1"
  by (simp add: sv_compare_def)

lemma sv_compare_Cons_Nil: "sv_compare (x # xs) [] = 1"
  by (simp add: sv_compare_def)

lemma sv_compare_Cons_Cons:
  "sv_compare (x # xs) (y # ys) = (if x < y then - 1 else if y < x then 1 else sv_compare xs ys)"
  by (simp add: sv_compare_def)

lemmas sv_compare_simps =
  sv_compare_Nil_Nil sv_compare_Nil_Cons sv_compare_Cons_Nil sv_compare_Cons_Cons

lemma sv_compare_less: "sv_compare a b < 0 \<longleftrightarrow> bytewise_less a b"
proof (induction a arbitrary: b)
  case Nil
  then show ?case by (cases b) (simp_all add: sv_compare_simps bytewise_less_def lexordp_def)
next
  case (Cons x xs)
  show ?case
  proof (cases b)
    case Nil
    then show ?thesis by (simp add: sv_compare_simps bytewise_less_def lexordp_def)
  next
    case (Cons y ys)
    then show ?thesis
      using Cons.IH [of ys]
      by (auto simp add: sv_compare_simps bytewise_less_def lexordp_def)
  qed
qed

lemma sv_compare_eq: "sv_compare a b = 0 \<longleftrightarrow> a = b"
proof (induction a arbitrary: b)
  case Nil
  then show ?case by (cases b) (simp_all add: sv_compare_simps)
next
  case (Cons x xs)
  show ?case
  proof (cases b)
    case Nil
    then show ?thesis by (simp add: sv_compare_simps)
  next
    case (Cons y ys)
    then show ?thesis
      using Cons.IH [of ys] by (auto simp add: sv_compare_simps)
  qed
qed

text \<open>Where two keys differ inside their first \<open>n\<close> bytes, those bytes decide the order.\<close>

lemma bytewise_less_take:
  "take n a \<noteq> take n b \<Longrightarrow> bytewise_less (take n a) (take n b) \<longleftrightarrow> bytewise_less a b"
proof (induction n arbitrary: a b)
  case 0
  then show ?case by simp
next
  case (Suc n)
  show ?case
  proof (cases a)
    case Nil
    then show ?thesis using Suc.prems by (cases b) (simp_all add: bytewise_less_def lexordp_def)
  next
    case a: (Cons x xs)
    show ?thesis
    proof (cases b)
      case Nil
      then show ?thesis using a by (simp add: bytewise_less_def lexordp_def)
    next
      case (Cons y ys)
      then show ?thesis
        using a Suc.prems Suc.IH [of xs ys]
        by (auto simp add: bytewise_less_def lexordp_def)
    qed
  qed
qed

lemma RandomIO_Read_ok:
  "unat off < 2 ^ 63 \<Longrightarrow> unat off + n \<le> length file \<Longrightarrow>
   RandomIO_Read file off n = Inr (take n (drop (unat off) file))"
  by (simp add: RandomIO_Read_def)

lemma entry_key_length:
  "entry_invariant b e \<Longrightarrow> length (entry_key b e) = unat (key_size e)"
  by (auto simp add: entry_invariant_def entry_key_def)

lemma entry_prefix:
  assumes "entry_invariant b e"
  shows "take (min 24 (unat (key_size e))) (prefix e) = take 24 (entry_key b e)"
proof -
  have "take (min 24 (unat (key_size e))) (entry_key b e) = take 24 (entry_key b e)"
    using entry_key_length [OF assms] by (simp add: min_def)
  then show ?thesis using assms by (simp add: entry_invariant_def)
qed

text \<open>
  C8. For two entries that satisfy the entry invariant, \<^verbatim>\<open>Compare\<close> returns (it does not
  throw) and its result is the byte-wise lexicographic "less than" of the two full keys
  on the spill file.
\<close>

theorem Compare_is_bytewise_less:
  assumes "entry_invariant b lhs" and "entry_invariant b rhs"
  shows "Compare b lhs rhs = Inr (bytewise_less (entry_key b lhs) (entry_key b rhs))"
proof -
  let ?kl = "entry_key b lhs" and ?kr = "entry_key b rhs"
  let ?fast = "sv_compare (take 24 ?kl) (take 24 ?kr)"
  have reads:
    "RandomIO_Read (b_raw b) (offset lhs) (unat (key_size lhs)) = Inr ?kl"
    "RandomIO_Read (b_raw b) (offset rhs) (unat (key_size rhs)) = Inr ?kr"
    using assms by (simp_all add: entry_invariant_def entry_key_def RandomIO_Read_ok)
  have fits: "\<not> b_key_size_max b < key_size lhs" "\<not> b_key_size_max b < key_size rhs"
    using assms by (simp_all add: entry_invariant_def not_less)
  show ?thesis
  proof (cases "?fast = 0")
    case True
    then show ?thesis
      using reads fits
      by (simp add: Compare_def entry_prefix [OF assms(1)] entry_prefix [OF assms(2)]
          sv_compare_less)
  next
    case False
    then have "take 24 ?kl \<noteq> take 24 ?kr" by (simp add: sv_compare_eq)
    then have "?fast < 0 \<longleftrightarrow> bytewise_less ?kl ?kr"
      by (simp add: sv_compare_less bytewise_less_take)
    then show ?thesis
      using False
      by (simp add: Compare_def entry_prefix [OF assms(1)] entry_prefix [OF assms(2)])
  qed
qed

theorem Compare_is_bytewise_less_witness:
  "entry_invariant two_long_keys long_entry_a \<and> entry_invariant two_long_keys long_entry_b
   \<and> Compare two_long_keys long_entry_a long_entry_b = Inr True
   \<and> Compare two_long_keys long_entry_b long_entry_a = Inr False"
proof -
  have a: "entry_invariant two_long_keys long_entry_a"
    by (simp add: entry_invariant_def two_long_keys_def long_entry_a_def entry_key_def)
  have b: "entry_invariant two_long_keys long_entry_b"
    by (simp add: entry_invariant_def two_long_keys_def long_entry_b_def entry_key_def)
  have ka: "entry_key two_long_keys long_entry_a = replicate 24 0x6b @ [0x61]"
    by (simp add: two_long_keys_def long_entry_a_def entry_key_def)
  have kb: "entry_key two_long_keys long_entry_b = replicate 24 0x6b @ [0x62]"
    by (simp add: two_long_keys_def long_entry_b_def entry_key_def)
  have lt: "bytewise_less (replicate 24 0x6b @ [0x61]) (replicate 24 0x6b @ [0x62])"
    by (simp add: bytewise_less_def lexordp_def lexord_same_pref_iff)
  have nlt: "\<not> bytewise_less (replicate 24 0x6b @ [0x62]) (replicate 24 0x6b @ [0x61])"
    by (simp add: bytewise_less_def lexordp_def lexord_same_pref_iff)
  show ?thesis
    using a b Compare_is_bytewise_less [OF a b] Compare_is_bytewise_less [OF b a] lt nlt
    by (simp add: ka kb)
qed

section \<open>Point lookup compares the key\<close>

lemma le_bytes_8:
  "le_bytes 8 (w::u64) =
     [ucast w, ucast (drop_bit 8 w), ucast (drop_bit 16 w), ucast (drop_bit 24 w),
      ucast (drop_bit 32 w), ucast (drop_bit 40 w), ucast (drop_bit 48 w), ucast (drop_bit 56 w)]"
  by (simp add: numeral_eq_Suc drop_bit_drop_bit)

lemma le_bytes_2: "le_bytes 2 (w::u16) = [ucast w, ucast (drop_bit 8 w)]"
  by (simp add: numeral_eq_Suc)

lemma two_record_file_bytes:
  "two_record_file =
     [112, 46, 105, 46, 116, 97, 98, 108, 4, 0, 1, 0, 0, 0, 0, 0, 36, 0, 0, 0, 0, 0, 0, 0,
      5, 97, 0, 120, 120, 120, 5, 98, 0, 121, 121, 121,
      24, 0, 0, 0, 0, 0, 0, 0, 30, 0, 0, 0, 0, 0, 0, 0]"
  by (simp add: two_record_file_def header_bytes_def MAGIC_def le_bytes_8 le_bytes_2)

lemma tail_slot_file_bytes:
  "tail_slot_file =
     [112, 46, 105, 46, 116, 97, 98, 108, 4, 0, 1, 0, 0, 0, 0, 0, 24, 0, 0, 0, 0, 0, 0, 0,
      32, 0, 0, 0, 0, 0, 0, 0]"
  by (simp add: tail_slot_file_def header_bytes_def MAGIC_def le_bytes_8 le_bytes_2)

lemma skip_varint_zeros: "0 < n \<Longrightarrow> skip_varint (replicate n 0) = Some (replicate (n - 1) 0)"
  by (cases n) simp_all

lemma c_str_zeros: "0 < n \<Longrightarrow> c_str (replicate n 0) = Some []"
  by (cases n) simp_all

lemma index_slot_madvised [simp]:
  "index_slot (t \<lparr> t_has_madvised_index := m \<rparr>) h = index_slot t h"
  by (simp add: index_slot_def Let_def)

lemma next_probe_madvised [simp]:
  "next_probe (t \<lparr> t_has_madvised_index := m \<rparr>) st = next_probe t st"
  by (cases st) (auto simp add: next_probe_def Let_def)



lemma mapped_pages_short:
  "0 < length contents \<Longrightarrow> length contents < 4096 \<Longrightarrow>
   mapped_pages contents = contents @ replicate (4096 - length contents) 0"
  by (simp add: mapped_pages_def page_size_def)

lemma SeekToKey_loop_numeral:
  "SeekToKey_loop (numeral n) t key st lo hi = SeekToKey_loop (Suc (pred_numeral n)) t key st lo hi"
  by (simp add: numeral_eq_Suc)






text \<open>
  A slot may hold \<^verbatim>\<open>buffer_fill\<close> itself: the varint and the key are then read from the
  zero bytes behind the file, and the empty key is found there.
\<close>

lemma SeekToKey_reads_page_tail:
  "SeekToKey (\<lambda>k. 0) 1 [] tail_slot_table
     = Some (Inr (True, tail_slot_table \<lparr> t_has_madvised_index := True, t_offset := 32 \<rparr>))"
proof -
  have "index_slot tail_slot_table 0 = Some 32"
    by (simp add: index_slot_def tail_slot_table_def mapped_pages_short
        tail_slot_file_bytes header_index_offset_def Let_def)
  moreover have "key_at (mapped_pages tail_slot_file) 32 = Some []"
    by (simp add: key_at_def mapped_pages_short tail_slot_file_bytes skip_varint_zeros
        c_str_zeros)
  moreover have "\<not> header_major_version tail_slot_file < 2"
    by (simp add: tail_slot_file_bytes header_major_version_def)
  moreover have "t_buffer tail_slot_table = tail_slot_file" "t_index_size tail_slot_table = 1"
    "t_buffer_fill tail_slot_table = 32"
    by (simp_all add: tail_slot_table_def)
  ultimately show ?thesis
    by (simp add: SeekToKey_def Let_def sv_compare_simps)
qed

text \<open>
  \<^verbatim>\<open>ReadRow\<close> with the cursor behind the end of the file, inside its last page and below
  \<^verbatim>\<open>index_offset\<close>: the byte read is zero and the result is \<^verbatim>\<open>false\<close>, end of table.
\<close>

lemma ReadRow_page_tail:
  assumes "of_nat sizeof_header \<le> t_offset t"
    and "t_offset t < header_index_offset (t_buffer t)"
    and "length (t_buffer t) \<le> unat (t_offset t)"
    and "unat (t_offset t) < length (mapped_pages (t_buffer t))"
  shows "ReadRow t = Inr (None, t)"
proof -
  have "mapped_pages (t_buffer t) ! unat (t_offset t) = 0"
    using assms(3,4) by (simp add: mapped_pages_def nth_append)
  then show ?thesis
    using assms(1,2,4) by (simp add: ReadRow_def)
qed

section \<open>What a built file contains and how the reader takes it\<close>

lemma length_le_bytes [simp]: "length (le_bytes n w) = n"
  by (induction n arbitrary: w) simp_all

lemma le_word_le_bytes:
  "(le_word (le_bytes n w) :: 'a::len word) = take_bit (8 * n) (w :: 'a word)"
proof (induction n arbitrary: w)
  case 0
  then show ?case by simp
next
  case (Suc n)
  show ?case
    by (rule bit_eqI) (auto simp add: Suc bit_simps)
qed

lemma le_word_le_bytes_8: "le_word (le_bytes 8 w) = (w :: u64)"
  by (simp add: le_word_le_bytes take_bit_word_eq_self)

lemma le_word_le_bytes_2: "le_word (le_bytes 2 w) = (w :: u16)"
  by (simp add: le_word_le_bytes take_bit_word_eq_self)

lemma length_header_bytes [simp]: "length (header_bytes h) = 24"
  by (simp add: header_bytes_def)

lemma header_fields:
  "header_magic (header_bytes h @ rest) = h_magic h"
  "header_major_version (header_bytes h @ rest) = h_major_version h"
  "header_flags (header_bytes h @ rest) = h_flags h"
  "header_compression (header_bytes h @ rest) = h_compression h"
  "header_index_offset (header_bytes h @ rest) = h_index_offset h"
  by (simp_all add: header_bytes_def header_magic_def header_major_version_def header_flags_def
      header_compression_def header_index_offset_def le_word_le_bytes_8 le_word_le_bytes_2
      nth_append)

lemma varint_value_encode_1: "varint_value_encode 1 = [1]"
  by (simp add: varint_value_encode_def)

lemma le_bytes_4:
  "le_bytes 4 (w::u32) = [ucast w, ucast (drop_bit 8 w), ucast (drop_bit 16 w), ucast (drop_bit 24 w)]"
  by (simp add: numeral_eq_Suc drop_bit_drop_bit)

lemmas build_defs =
  build_table_def new_WriteOnceBuilder_def Add_def AddEntry_def WriteEntryData_def
  Build_def SortEntries_def CreateFile_def WriteFinalData_def final_step_def
  WriteBlock_def WriteIndex_def block_Add_def block_Marshal_def index_Add_def index_Marshal_def
  empty_block_def empty_index_def RandomIO_Read_def Compare_def
  kTableCompressionNone_def kEntrySizeLimit_def kBlockSizeMax_def kBlockSizeMin_def
  O_CLOEXEC_def default_options_def built_header_def

lemma build_single_pair:
  "build_table kDefault kLast (default_options lvl) stack [([0x61], [0x78, 0x78, 0x78])]
     = Inr (single_pair_file lvl stack)"
  by (simp add: build_defs single_pair_file_def Let_def le_bytes_4 varint_value_encode_1)

lemma build_empty:
  "build_table kDefault kLast (default_options lvl) stack [] = Inr (built_header 0 lvl stack)"
  by (simp add: build_defs Let_def)

lemma length_built_header [simp]: "length (built_header c lvl stack) = 24"
  by (simp add: built_header_def)

lemma built_header_fields:
  "header_magic (built_header c lvl stack @ rest) = MAGIC"
  "header_major_version (built_header c lvl stack @ rest) = MAJOR_VERSION"
  "header_flags (built_header c lvl stack @ rest) = CA_WO_FLAG_ASCENDING"
  "header_compression (built_header c lvl stack @ rest) = c"
  "header_index_offset (built_header c lvl stack @ rest) = stack"
  by (simp_all add: built_header_def header_fields)

lemma open_empty:
  "open_table kLast (built_header c lvl stack) = Inl (RequireFailed ''end > sizeof(struct CA_wo_header)'')"
  by (simp add: open_table_def MemoryMap_def sizeof_header_def)

lemma open_built:
  assumes "rest \<noteq> []"
  shows "open_table kLast (built_header 0 lvl stack @ rest) =
    Inr \<lparr> t_buffer = built_header 0 lvl stack @ rest,
          t_buffer_size = of_nat (24 + length rest), t_buffer_fill = of_nat (24 + length rest),
          t_compression = 0,
          t_index_size = (of_nat (24 + length rest) - stack) div 8,
          t_index_bits = 64, t_has_madvised_index = False, t_offset = 24 \<rparr>"
  using assms
  by (simp add: open_table_def MemoryMap_def built_header_fields sizeof_header_def
      MAJOR_VERSION_def kTableCompressionNone_def Let_def)

text \<open>
  C1, on the code. The pair \<open>("a", "xxx")\<close> is added and the table built (the build
  succeeds, \<open>build_single_pair\<close>) and reopened. Whatever the stack held when the header
  was written, and however many rows the scan may read, \<^verbatim>\<open>SeekToFirst\<close> followed by
  \<^verbatim>\<open>ReadRow\<close> until end of table does not return the pair that was added: the seek is
  refused, or the first \<^verbatim>\<open>ReadRow\<close> reports end of table, or it fails its assertion on
  the first block's count and key sizes, which it takes for a record.
\<close>

theorem single_pair_scan:
  "write_then_scan kDefault kLast (default_options lvl) stack [([0x61], [0x78, 0x78, 0x78])] fuel
     \<noteq> Some (Inr [([0x61], [0x78, 0x78, 0x78])])"
proof -
  let ?rest = "[1, 1, 0, 0, 0, 3, 0, 0, 0, 0x61, 0x78, 0x78, 0x78, 1, 13, 0, 0, 0, 1, 0, 0, 0, 0x61] :: byte list"
  let ?t = "\<lparr> t_buffer = built_header 0 lvl stack @ ?rest,
          t_buffer_size = 47, t_buffer_fill = 47, t_compression = 0,
          t_index_size = (47 - stack) div 8,
          t_index_bits = 64, t_has_madvised_index = False, t_offset = 24 \<rparr>"
  have parts: "single_pair_file lvl stack = built_header 0 lvl stack @ ?rest"
    by (simp add: single_pair_file_def)
  have opened: "write_then_open kDefault kLast (default_options lvl) stack [([0x61], [0x78, 0x78, 0x78])] = Inr ?t"
    by (simp add: write_then_open_def build_single_pair parts open_built)
  have seek: "SeekToFirst ?t = (if 24 \<le> stack then Inr ?t else Inl (RequireFailed ''attempt to seek past end of table''))"
    by (simp add: SeekToFirst_def Seek_def built_header_fields sizeof_header_def)
  have row: "ReadRow ?t = (if 24 < stack then Inl (AssertFailed ''size > key->iov_len'') else Inr (None, ?t))" if "24 \<le> stack"
    using that
    by (auto simp add: ReadRow_def built_header_fields sizeof_header_def nth_append
        mapped_pages_short)
  show ?thesis
  proof (cases "24 \<le> stack")
    case False
    then show ?thesis by (simp add: write_then_scan_def opened scan_table_def seek)
  next
    case True
    show ?thesis
    proof (cases fuel)
      case 0
      then show ?thesis using True by (simp add: write_then_scan_def opened scan_table_def seek)
    next
      case (Suc n)
      then show ?thesis
        using True row [OF True]
        by (simp add: write_then_scan_def opened scan_table_def seek)
    qed
  qed
qed


lemma WriteBlock_out: "\<exists>w. out_file (snd (WriteBlock s)) = out_file s @ w"
  by (simp add: WriteBlock_def Let_def)

lemma WriteIndex_out: "\<exists>w. out_file (snd (WriteIndex s)) = out_file s @ w"
  by (simp add: WriteIndex_def Let_def)

lemma final_step_out:
  "final_step raw e s = Inr s' \<Longrightarrow> \<exists>w. out_file s' = out_file s @ w"
  by (auto simp add: final_step_def Let_def WriteBlock_def split: if_splits sum.splits prod.splits bool.splits)

lemma final_loop_out:
  "final_loop raw es s = Inr s' \<Longrightarrow> \<exists>w. out_file s' = out_file s @ w"
proof (induction es arbitrary: s)
  case Nil
  then show ?case by simp
next
  case (Cons e es)
  then obtain s1 where s1: "final_step raw e s = Inr s1" "final_loop raw es s1 = Inr s'"
    by (auto split: sum.splits)
  from final_step_out [OF s1(1)] Cons.IH [OF s1(2)] show ?case by auto
qed

lemma WriteFinalData_out:
  assumes "WriteFinalData b hdr = Inr s"
  shows "\<exists>w. out_file s = hdr @ w"
proof -
  from assms obtain s0 where s0: "final_loop (b_raw b) (b_index b)
             \<lparr> fs_index = empty_index, fs_block = empty_block, last_key = [],
               block_count = 0, large_count = 0, out_file = hdr \<rparr> = Inr s0"
    and s: "s = snd (WriteIndex (if fst (WriteBlock s0)
          then (snd (WriteBlock s0)) \<lparr> block_count := block_count (snd (WriteBlock s0)) + 1 \<rparr>
          else snd (WriteBlock s0)))"
    by (auto simp add: WriteFinalData_def Let_def split: sum.splits prod.splits)
  from final_loop_out [OF s0] obtain w0 where w0: "out_file s0 = hdr @ w0" by auto
  obtain w1 where w1: "out_file (snd (WriteBlock s0)) = out_file s0 @ w1"
    using WriteBlock_out by blast
  let ?s2 = "if fst (WriteBlock s0)
          then (snd (WriteBlock s0)) \<lparr> block_count := block_count (snd (WriteBlock s0)) + 1 \<rparr>
          else snd (WriteBlock s0)"
  have "out_file ?s2 = out_file (snd (WriteBlock s0))" by simp
  moreover obtain w2 where "out_file (snd (WriteIndex ?s2)) = out_file ?s2 @ w2"
    using WriteIndex_out by blast
  ultimately show ?thesis using s w0 w1 by simp
qed

lemma Build_header:
  assumes "Build stack b = Inr built"
  shows "\<exists>rest. built = built_header (b_compression b) (opt_compression_level (b_options b)) stack @ rest"
proof -
  from assms obtain b' hdr s where
    b': "SortEntries b = Inr b'" and hdr: "CreateFile stack b' = Inr hdr"
    and s: "WriteFinalData b' hdr = Inr s" and built: "built = out_file s"
    by (auto simp add: Build_def split: sum.splits)
  from b' have "b_compression b' = b_compression b" "b_options b' = b_options b"
    by (auto simp add: SortEntries_def split: sum.splits)
  with hdr have "hdr = built_header (b_compression b) (opt_compression_level (b_options b)) stack"
    by (auto simp add: CreateFile_def built_header_def split: if_splits)
  with WriteFinalData_out [OF s] built show ?thesis by auto
qed

lemma add_all_keeps:
  "add_all kvs b = Inr b' \<Longrightarrow> b_compression b' = b_compression b \<and> b_options b' = b_options b"
proof (induction kvs arbitrary: b)
  case Nil
  then show ?case by simp
next
  case (Cons kv kvs)
  obtain k v where kv: "kv = (k, v)" by (cases kv)
  with Cons.prems obtain b1 where b1: "Add k v b = Inr b1" "add_all kvs b1 = Inr b'"
    by (auto split: sum.splits)
  from b1(1) have "b_compression b1 = b_compression b \<and> b_options b1 = b_options b"
    by (auto simp add: Add_def AddEntry_def WriteEntryData_def Let_def split: sum.splits if_splits)
  with Cons.IH [OF b1(2)] show ?case by simp
qed

lemma build_table_header:
  assumes "build_table kDefault kLast options stack kvs = Inr built"
  shows "\<exists>rest. built = built_header
     (if opt_compression options = kDefault then kTableCompressionNone else opt_compression options)
     (opt_compression_level options) stack @ rest"
proof -
  from assms obtain b0 b1 where b0: "new_WriteOnceBuilder kDefault kLast options = Inr b0"
    and b1: "add_all kvs b0 = Inr b1" and f: "Build stack b1 = Inr built"
    by (auto simp add: build_table_def split: sum.splits)
  from b0 have "b_options b0 = options"
    "b_compression b0 = (if opt_compression options = kDefault then kTableCompressionNone else opt_compression options)"
    by (auto simp add: new_WriteOnceBuilder_def Let_def split: if_splits)
  with add_all_keeps [OF b1] Build_header [OF f] show ?thesis by simp
qed

text \<open>
  C3, on the code. After any successful build the file starts with a 24 byte header whose
  magic is \<open>MAGIC\<close> and whose major version is 4; its compression byte is the builder's
  \<^verbatim>\<open>compression_\<close> (none when the options ask for none or for the default), and its
  \<open>index_offset\<close> field holds what the stack held when \<^verbatim>\<open>CreateFile\<close> ran, whatever was
  added and wherever the trailing index starts: nothing in \<^verbatim>\<open>Build\<close> assigns it.
\<close>

theorem built_header_fields_of_build:
  assumes "build_table kDefault kLast options stack kvs = Inr built"
  shows "24 \<le> length built
    \<and> header_magic built = MAGIC
    \<and> header_major_version built = 4
    \<and> header_compression built =
        (if opt_compression options = kDefault then kTableCompressionNone else opt_compression options)
    \<and> header_index_offset built = stack"
proof -
  from build_table_header [OF assms] obtain rest where
    "built = built_header
     (if opt_compression options = kDefault then kTableCompressionNone else opt_compression options)
     (opt_compression_level options) stack @ rest" by blast
  then show ?thesis
    by (simp add: built_header_fields MAJOR_VERSION_def del: if_split)
qed

theorem built_header_fields_of_build_witness:
  "build_table 255 1 (default_options 0) 0 [([0x61], [0x78, 0x78, 0x78])] = Inr (single_pair_file 0 0)
   \<and> length (single_pair_file 0 0) = 47
   \<and> header_magic (single_pair_file 0 0) = 0x6c6261742e692e70
   \<and> header_major_version (single_pair_file 0 0) = 4
   \<and> header_compression (single_pair_file 0 0) = 0
   \<and> header_index_offset (single_pair_file 0 0) = 0"
proof -
  have h: "build_table 255 1 (default_options 0) 0 [([0x61], [0x78, 0x78, 0x78])] = Inr (single_pair_file 0 0)"
    by (rule build_single_pair)
  have "length (single_pair_file 0 0) = 47" by (simp add: single_pair_file_def)
  then show ?thesis
    using h built_header_fields_of_build [OF h]
    by (simp add: default_options_def MAGIC_def kTableCompressionNone_def)
qed

text \<open>
  C4, on the code. A build with no \<^verbatim>\<open>Add\<close> call that succeeds leaves a file of exactly
  the 24 header bytes, and opening that file fails: \<^verbatim>\<open>MemoryMap\<close> requires the file to be
  longer than the header.
\<close>

theorem empty_table_reopen_fails:
  assumes "build_table kDefault kLast options stack [] = Inr built"
  shows "length built = 24
    \<and> open_table kLast built = Inl (RequireFailed ''end > sizeof(struct CA_wo_header)'')"
proof -
  from assms have "\<exists>c lvl. built = built_header c lvl stack"
    by (auto simp add: build_table_def new_WriteOnceBuilder_def Build_def SortEntries_def
        CreateFile_def WriteFinalData_def WriteBlock_def WriteIndex_def block_Marshal_def
        index_Marshal_def empty_block_def empty_index_def built_header_def Let_def
        split: if_splits)
  then show ?thesis by (auto simp add: open_empty)
qed

theorem empty_table_reopen_fails_witness:
  "build_table 255 1 (default_options 0) 0 [] = Inr (built_header 0 0 0)
   \<and> write_then_open 255 1 (default_options 0) 0 []
       = Inl (RequireFailed ''end > sizeof(struct CA_wo_header)'')"
proof -
  have h: "build_table 255 1 (default_options 0) 0 [] = Inr (built_header 0 0 0)"
    by (rule build_empty)
  show ?thesis
    using h empty_table_reopen_fails [OF h] by (simp add: write_then_open_def)
qed

text \<open>
  C5, on the code. Whatever pairs were added and in whatever order, when the build and
  the reopening succeed \<^verbatim>\<open>IsSorted\<close> returns true: \<^verbatim>\<open>CreateFile\<close> always writes the
  ascending flag.
\<close>

theorem reopened_table_is_sorted:
  assumes "write_then_open kDefault kLast options stack kvs = Inr t"
  shows "IsSorted t"
proof -
  from assms obtain built where built: "build_table kDefault kLast options stack kvs = Inr built"
    and t: "open_table kLast built = Inr t"
    by (auto simp add: write_then_open_def split: sum.splits)
  from t have "t_buffer t = built"
    by (auto simp add: open_table_def MemoryMap_def Let_def split: sum.splits if_splits)
  moreover from build_table_header [OF built] have "header_flags built = CA_WO_FLAG_ASCENDING"
    by (auto simp add: built_header_fields)
  ultimately show ?thesis by (simp add: IsSorted_def CA_WO_FLAG_ASCENDING_def)
qed


lemma varint_value_encode_4: "varint_value_encode 4 = [4]"
  by (simp add: varint_value_encode_def)



lemma build_unsorted_pairs:
  "build_table kDefault kLast (default_options lvl) stack unsorted_pairs
     = Inr (built_header 0 lvl stack @ unsorted_pairs_blocks)"
  by (simp add: build_defs unsorted_pairs_def unsorted_pairs_blocks_def Let_def le_bytes_4
      varint_value_encode_1 varint_value_encode_4 sv_compare_simps)

theorem reopened_table_is_sorted_witness:
  "\<exists>t. write_then_open 255 1 (default_options 0) 0 unsorted_pairs = Inr t
      \<and> t_buffer t = built_header 0 0 0 @ unsorted_pairs_blocks \<and> IsSorted t"
proof -
  have "unsorted_pairs_blocks \<noteq> []" by (simp add: unsorted_pairs_blocks_def)
  then obtain t where h: "write_then_open 255 1 (default_options 0) 0 unsorted_pairs = Inr t"
    and t: "t_buffer t = built_header 0 0 0 @ unsorted_pairs_blocks"
    by (simp add: write_then_open_def build_unsorted_pairs open_built)
  show ?thesis
    using h t reopened_table_is_sorted [OF h] by simp
qed

lemma major_version_check: "(v :: byte) \<le> MAJOR_VERSION \<or> v \<ge> 2"
  by (simp add: MAJOR_VERSION_def word_le_nat_alt) linarith

text \<open>
  C6, on the code. A file longer than the header, with the right magic and compression
  none, is opened whatever its major version byte is: the version requirement
  \<^verbatim>\<open>major_version <= 4 || major_version >= 2\<close> holds of every byte.
\<close>

theorem open_accepts_every_major_version:
  assumes "sizeof_header < length contents" and "header_magic contents = MAGIC"
    and "header_compression contents = kTableCompressionNone"
  shows "\<exists>t. open_table kLast contents = Inr t \<and> t_buffer t = contents"
  using assms major_version_check [of "header_major_version contents"]
  by (simp add: open_table_def MemoryMap_def Let_def kTableCompressionNone_def)


theorem open_accepts_every_major_version_witness:
  "header_major_version version_9_file = 9
   \<and> (\<exists>t. open_table 1 version_9_file = Inr t \<and> t_buffer t = version_9_file)"
proof -
  have a: "sizeof_header < length version_9_file"
    by (simp add: version_9_file_def sizeof_header_def)
  have b: "header_magic version_9_file = MAGIC"
    by (simp add: version_9_file_def header_fields)
  have c: "header_compression version_9_file = kTableCompressionNone"
    by (simp add: version_9_file_def header_fields kTableCompressionNone_def)
  have "header_major_version version_9_file = 9"
    by (simp add: version_9_file_def header_fields)
  then show ?thesis
    using open_accepts_every_major_version [OF a b c, of 1] by simp
qed

lemma single_pair_file_bytes:
  "single_pair_file 0 0 =
     [112, 46, 105, 46, 116, 97, 98, 108, 4, 0, 1, 0, 0, 0, 0, 0, 0, 0, 0, 0, 0, 0, 0, 0,
      1, 1, 0, 0, 0, 3, 0, 0, 0, 97, 120, 120, 120, 1, 13, 0, 0, 0, 1, 0, 0, 0, 97]"
  by (simp add: single_pair_file_def built_header_def header_bytes_def MAGIC_def le_bytes_8
      le_bytes_2 MAJOR_VERSION_def MINOR_VERSION_def CA_WO_FLAG_ASCENDING_def)


lemma open_single_pair:
  "write_then_open kDefault kLast (default_options 0) 0 [([0x61], [0x78, 0x78, 0x78])]
     = Inr single_pair_table"
  by (simp add: write_then_open_def build_single_pair single_pair_file_def open_built
      single_pair_table_def)

lemma word_less_5_cases: "(h :: u64) < 5 \<Longrightarrow> h = 0 \<or> h = 1 \<or> h = 2 \<or> h = 3 \<or> h = 4"
proof -
  assume "h < 5"
  then have "unat h < 5" by (simp add: word_less_nat_alt)
  then have "unat h = 0 \<or> unat h = 1 \<or> unat h = 2 \<or> unat h = 3 \<or> unat h = 4" by linarith
  moreover have "of_nat (unat h) = h" by simp
  ultimately show ?thesis by (elim disjE) (simp_all add: unat_eq_zero)
qed

lemma SeekToKey_loop_stop:
  "index_slot t (fst st) = Some 0 \<Longrightarrow>
   SeekToKey_loop (Suc n) t key st lo hi = Some (Inr (False, t))"
  by simp

lemma SeekToKey_loop_skip:
  "index_slot t (fst st) = Some v \<Longrightarrow> v \<noteq> 0 \<Longrightarrow> \<not> v \<le> hi \<Longrightarrow>
   SeekToKey_loop (Suc n) t key st lo hi = SeekToKey_loop n t key (next_probe t st) lo hi"
  by simp


lemma single_pair_slots:
  "index_slot single_pair_seeking 0 = Some 0x6c6261742e692e70"
  "index_slot single_pair_seeking 1 = Some 0x10004"
  "index_slot single_pair_seeking 2 = Some 0"
  "index_slot single_pair_seeking 3 = Some 0x30000000101"
  "index_slot single_pair_seeking 4 = Some 0xd017878786100"
  by (simp_all add: single_pair_seeking_def single_pair_table_def single_pair_file_bytes
      index_slot_def header_index_offset_def mapped_pages_short)

lemma single_pair_next:
  "next_probe single_pair_seeking (h, fib, c) = ((if h + 1 = 5 then 0 else h + 1), fib, c)"
  by (cases fib)
    (simp add: next_probe_def single_pair_seeking_def single_pair_table_def
      single_pair_file_bytes header_major_version_def)

lemma single_pair_from_2:
  "SeekToKey_loop (Suc n) single_pair_seeking key (2, fib, c) 0 47
     = Some (Inr (False, single_pair_seeking))"
  by (rule SeekToKey_loop_stop) (simp add: single_pair_slots)

lemma single_pair_from_1:
  "SeekToKey_loop (Suc (Suc n)) single_pair_seeking key (1, fib, c) 0 47
     = Some (Inr (False, single_pair_seeking))"
  by (subst SeekToKey_loop_skip [where v = "0x10004"])
    (simp_all add: single_pair_slots single_pair_next single_pair_from_2)

lemma single_pair_from_0:
  "SeekToKey_loop (Suc (Suc (Suc n))) single_pair_seeking key (0, fib, c) 0 47
     = Some (Inr (False, single_pair_seeking))"
  by (subst SeekToKey_loop_skip [where v = "0x6c6261742e692e70"])
    (simp_all add: single_pair_slots single_pair_next single_pair_from_1)

lemma single_pair_from_4:
  "SeekToKey_loop (Suc (Suc (Suc (Suc n)))) single_pair_seeking key (4, fib, c) 0 47
     = Some (Inr (False, single_pair_seeking))"
  by (subst SeekToKey_loop_skip [where v = "0xd017878786100"])
    (simp_all add: single_pair_slots single_pair_next single_pair_from_0)

lemma single_pair_from_3:
  "SeekToKey_loop (Suc (Suc (Suc (Suc (Suc n))))) single_pair_seeking key (3, fib, c) 0 47
     = Some (Inr (False, single_pair_seeking))"
  by (subst SeekToKey_loop_skip [where v = "0x30000000101"])
    (simp_all add: single_pair_slots single_pair_next single_pair_from_4)

lemma single_pair_probe:
  assumes "h < 5"
  shows "SeekToKey_loop (Suc (Suc (Suc (Suc (Suc 0))))) single_pair_seeking key (h, (2, 1), 0) 0 47
    = Some (Inr (False, single_pair_seeking))"
  using word_less_5_cases [OF assms]
    single_pair_from_0 [of "Suc (Suc 0)" key "(2, 1)" 0]
    single_pair_from_1 [of "Suc (Suc (Suc 0))" key "(2, 1)" 0]
    single_pair_from_2 [of "Suc (Suc (Suc (Suc 0)))" key "(2, 1)" 0]
    single_pair_from_3 [of 0 key "(2, 1)" 0]
    single_pair_from_4 [of "Suc 0" key "(2, 1)" 0]
  by (elim disjE) (simp_all only:)

text \<open>
  C2, on the code. The pair \<open>("a", "xxx")\<close> is added and the table built and reopened,
  the stack having held 0 when the header was written. Then for every hash function and
  every key, the ingested \<open>"a"\<close> among them, \<^verbatim>\<open>SeekToKey\<close> returns false after at
  most five probes: the slots it reads are the header, the block and the block index.
\<close>

theorem single_pair_seek:
  "write_then_seek Hash kDefault kLast (default_options 0) 0 [([0x61], [0x78, 0x78, 0x78])]
       (Suc (Suc (Suc (Suc (Suc 0))))) key
     = Some (Inr (False, single_pair_seeking))"
proof -
  have "Hash key mod 5 < 5" by (simp add: word_mod_less_divisor)
  from single_pair_probe [OF this] show ?thesis
    unfolding write_then_seek_def open_single_pair SeekToKey_def Let_def single_pair_seeking_def
    by (simp add: single_pair_table_def single_pair_file_bytes header_major_version_def
        cong: if_weak_cong option.case_cong_weak)
qed

section \<open>Block emission\<close>

lemma pairs_size_snoc [simp]:
  "pairs_size (ps @ [(k, v)]) = pairs_size ps + length k + length v"
  by (simp add: pairs_size_def)

lemma pairs_size_Nil [simp]: "pairs_size [] = 0"
  by (simp add: pairs_size_def)

lemma block_of_explicit:
  "pairs_size ps \<le> kBlockSizeMax \<Longrightarrow>
   block_of ps = \<lparr> blk_key_size = map (\<lambda>p. of_nat (length (fst p))) ps,
                   blk_key_data = concat (map fst ps),
                   blk_value_size = map (\<lambda>p. of_nat (length (snd p))) ps,
                   blk_value_data = concat (map snd ps) \<rparr>"
proof (induction ps rule: rev_induct)
  case Nil
  then show ?case by (simp add: block_of_def empty_block_def)
next
  case (snoc p ps)
  obtain k v where p: "p = (k, v)" by (cases p)
  from snoc.prems p have fit: "pairs_size ps + length k + length v \<le> kBlockSizeMax" by simp
  then have "pairs_size ps \<le> kBlockSizeMax" by simp
  from snoc.IH [OF this] have ih: "block_of ps = \<lparr> blk_key_size = map (\<lambda>p. of_nat (length (fst p))) ps,
                   blk_key_data = concat (map fst ps),
                   blk_value_size = map (\<lambda>p. of_nat (length (snd p))) ps,
                   blk_value_data = concat (map snd ps) \<rparr>" .
  have "block_of (ps @ [p]) = snd (block_Add k v (block_of ps))"
    by (simp add: block_of_def p)
  also have "\<dots> = \<lparr> blk_key_size = map (\<lambda>p. of_nat (length (fst p))) (ps @ [p]),
                   blk_key_data = concat (map fst (ps @ [p])),
                   blk_value_size = map (\<lambda>p. of_nat (length (snd p))) (ps @ [p]),
                   blk_value_data = concat (map snd (ps @ [p])) \<rparr>"
    using fit by (simp add: ih block_Add_def p pairs_size_def)
  finally show ?case .
qed

lemma block_Add_block_of:
  assumes "pairs_size ps \<le> kBlockSizeMax"
  shows "block_Add k v (block_of ps) =
    (if pairs_size ps + length k + length v > kBlockSizeMax then (False, block_of ps)
     else (True, block_of (ps @ [(k, v)])))"
proof (cases "pairs_size ps + length k + length v > kBlockSizeMax")
  case True
  then show ?thesis
    using assms by (simp add: block_of_explicit block_Add_def pairs_size_def)
next
  case False
  then have "pairs_size (ps @ [(k, v)]) \<le> kBlockSizeMax" by simp
  from block_of_explicit [OF this] False show ?thesis
    using assms by (simp add: block_of_explicit block_Add_def pairs_size_def)
qed

lemma varint_groups_nonempty: "acc \<noteq> [] \<Longrightarrow> varint_groups v acc \<noteq> []"
proof (induction v acc rule: varint_groups.induct)
  case (1 v acc)
  then show ?case by (cases "v = 0") simp_all
qed

lemma varint_value_encode_nonempty: "varint_value_encode v \<noteq> []"
  by (simp add: varint_value_encode_def varint_groups_nonempty)

lemma block_Marshal_empty_iff:
  "pairs_size ps \<le> kBlockSizeMax \<Longrightarrow> block_Marshal (block_of ps) = [] \<longleftrightarrow> ps = []"
  by (simp add: block_of_explicit block_Marshal_def varint_value_encode_nonempty Let_def)


lemma index_of_Nil [simp]: "index_of [] = empty_index"
  by (simp add: index_of_def)

lemma index_of_snoc [simp]:
  "index_of (pss @ [ps])
     = index_Add (of_nat (length (block_Marshal (block_of ps)))) (fst (last ps)) (index_of pss)"
  by (simp add: index_of_def)

lemma concat_singleton:
  assumes "concat pss = [p]" and "\<And>ps. ps \<in> set pss \<Longrightarrow> ps \<noteq> []"
  shows "pss = [[p]]"
proof (cases pss)
  case Nil
  then show ?thesis using assms(1) by simp
next
  case (Cons ps rest)
  then have "ps \<noteq> []" using assms(2) by simp
  then have ps: "ps = [p]" and rest: "concat rest = []"
    using assms(1) Cons by (auto simp add: append_eq_Cons_conv)
  have "rest = []"
  proof (cases rest)
    case Nil
    then show ?thesis .
  next
    case (Cons r rs)
    then have "r \<noteq> []" using assms(2) \<open>pss = ps # rest\<close> by simp
    then show ?thesis using rest Cons by simp
  qed
  then show ?thesis using Cons ps by simp
qed

lemma sizes_wrap:
  "sizes_fit_u32 e \<Longrightarrow> unat (key_size e + value_size e) = unat (key_size e) + unat (value_size e)"
  using unat_add_lem [of "key_size e" "value_size e"] by (simp add: sizes_fit_u32_def)

lemma final_step_large:
  assumes "sizes_fit_u32 e" and "is_large e"
  shows "final_step raw e s = Inr (s \<lparr> large_count := large_count s + 1 \<rparr>)"
  using assms by (simp add: final_step_def sizes_wrap is_large_def)

lemma read_entry:
  assumes "entry_invariant b e"
  shows "RandomIO_Read (b_raw b) (offset e) (unat (key_size e) + unat (value_size e))
    = Inr (entry_key b e @ entry_value b e)"
proof -
  let ?ks = "unat (key_size e)" and ?vs = "unat (value_size e)" and ?d = "drop (unat (offset e)) (b_raw b)"
  have len: "?ks + ?vs \<le> length ?d" using assms by (auto simp add: entry_invariant_def)
  have "take (?ks + ?vs) ?d = take ?ks ?d @ take ?vs (drop ?ks ?d)"
    by (simp add: take_add)
  then show ?thesis
    using assms len
    by (simp add: RandomIO_Read_def entry_invariant_def entry_key_def entry_value_def add.commute)
qed

lemma entry_value_length:
  "entry_invariant b e \<Longrightarrow> length (entry_value b e) = unat (value_size e)"
  by (auto simp add: entry_invariant_def entry_value_def)

lemma final_step_small:
  assumes "entry_invariant b e" and "sizes_fit_u32 e" and "\<not> is_large e"
  shows "final_step (b_raw b) e s =
    (case block_Add (entry_key b e) (entry_value b e) (fs_block s) of
       (True, blk) \<Rightarrow> Inr (s \<lparr> fs_block := blk, last_key := entry_key b e \<rparr>)
     | (False, _) \<Rightarrow>
         let s1 = snd (WriteBlock s);
             s2 = s1 \<lparr> fs_block := empty_block, block_count := block_count s1 + 1 \<rparr>
         in (case block_Add (entry_key b e) (entry_value b e) (fs_block s2) of
               (True, blk) \<Rightarrow> Inr (s2 \<lparr> fs_block := blk, last_key := entry_key b e \<rparr>)
             | (False, _) \<Rightarrow> Inl (RequireFailed ''an entry does not fit a block'')))"
  using assms
  by (simp add: final_step_def sizes_wrap is_large_def read_entry entry_key_length
      entry_value_length Let_def)

lemma entry_sizes:
  assumes "entry_invariant b e" and "\<not> is_large e"
  shows "length (entry_key b e) + length (entry_value b e) \<le> kEntrySizeLimit"
  using assms by (simp add: entry_key_length entry_value_length is_large_def)

lemma final_step_emits:
  assumes inv: "emission_invariant hdr s pss cur"
    and e: "entry_invariant b e" "sizes_fit_u32 e"
  shows "\<exists>s' pss' cur'. final_step (b_raw b) e s = Inr s'
    \<and> emission_invariant hdr s' pss' cur'
    \<and> concat pss' @ cur' = concat pss @ cur @ (if is_large e then [] else [entry_pair b e])
    \<and> large_count s' = large_count s + (if is_large e then 1 else 0)"
proof (cases "is_large e")
  case True
  have "emission_invariant hdr (s \<lparr> large_count := large_count s + 1 \<rparr>) pss cur"
    using inv by (simp add: emission_invariant_def)
  then show ?thesis
    using True final_step_large [OF e(2) True] by auto
next
  case False
  let ?k = "entry_key b e" and ?v = "entry_value b e"
  from inv have blk: "fs_block s = block_of cur" and fit: "pairs_size cur \<le> kBlockSizeMax"
    by (simp_all add: emission_invariant_def)
  have small: "length ?k + length ?v \<le> kEntrySizeLimit"
    by (rule entry_sizes [OF e(1) False])
  show ?thesis
  proof (cases "pairs_size cur + length ?k + length ?v > kBlockSizeMax")
    case fits: False
    let ?s' = "s \<lparr> fs_block := block_of (cur @ [(?k, ?v)]), last_key := ?k \<rparr>"
    have step: "final_step (b_raw b) e s = Inr ?s'"
      using fits by (simp add: final_step_small [OF e False] blk block_Add_block_of [OF fit])
    have "emission_invariant hdr ?s' pss (cur @ [(?k, ?v)])"
      using inv fits by (simp add: emission_invariant_def)
    then have "final_step (b_raw b) e s = Inr ?s'
      \<and> emission_invariant hdr ?s' pss (cur @ [(?k, ?v)])
      \<and> concat pss @ cur @ [(?k, ?v)]
          = concat pss @ cur @ (if is_large e then [] else [entry_pair b e])
      \<and> large_count ?s' = large_count s + (if is_large e then 1 else 0)"
      using step False by (simp add: entry_pair_def)
    then show ?thesis by blast
  next
    case full: True
    have cur: "cur \<noteq> []"
      using full small by (auto simp add: kEntrySizeLimit_def kBlockSizeMax_def kBlockSizeMin_def)
    then have marshal: "block_Marshal (block_of cur) \<noteq> []"
      by (simp add: block_Marshal_empty_iff [OF fit])
    let ?s1 = "s \<lparr> fs_index := index_Add (of_nat (length (block_Marshal (block_of cur)))) (last_key s) (fs_index s),
                    out_file := out_file s @ block_Marshal (block_of cur) \<rparr>"
    let ?s' = "?s1 \<lparr> fs_block := block_of [(?k, ?v)], block_count := block_count s + 1, last_key := ?k \<rparr>"
    have wb: "snd (WriteBlock s) = ?s1"
      using marshal by (simp add: WriteBlock_def blk Let_def)
    have empty: "empty_block = block_of []" by (simp add: block_of_def)
    have one: "block_Add ?k ?v (block_of []) = (True, block_of [(?k, ?v)])"
      using small block_Add_block_of [of "[]" ?k ?v]
      by (simp add: kEntrySizeLimit_def kBlockSizeMax_def kBlockSizeMin_def)
    have step: "final_step (b_raw b) e s = Inr ?s'"
      using full
      by (simp add: final_step_small [OF e False] blk block_Add_block_of [OF fit] wb Let_def
          empty one)
    have "emission_invariant hdr ?s' (pss @ [cur]) [(?k, ?v)]"
      using inv cur small
      by (simp add: emission_invariant_def pairs_size_def kEntrySizeLimit_def kBlockSizeMax_def
          kBlockSizeMin_def)
    then have "final_step (b_raw b) e s = Inr ?s'
      \<and> emission_invariant hdr ?s' (pss @ [cur]) [(?k, ?v)]
      \<and> concat (pss @ [cur]) @ [(?k, ?v)]
          = concat pss @ cur @ (if is_large e then [] else [entry_pair b e])
      \<and> large_count ?s' = large_count s + (if is_large e then 1 else 0)"
      using step False by (simp add: entry_pair_def)
    then show ?thesis by blast
  qed
qed

lemma final_loop_emits:
  assumes "emission_invariant hdr s pss cur"
    and "list_all (entry_invariant b) es" and "list_all sizes_fit_u32 es"
  shows "\<exists>s' pss' cur'. final_loop (b_raw b) es s = Inr s'
    \<and> emission_invariant hdr s' pss' cur'
    \<and> concat pss' @ cur' = concat pss @ cur @ map (entry_pair b) (filter (\<lambda>e. \<not> is_large e) es)
    \<and> large_count s' = large_count s + length (filter is_large es)"
  using assms
proof (induction es arbitrary: s pss cur)
  case Nil
  then show ?case by auto
next
  case (Cons e es)
  from Cons.prems have e: "entry_invariant b e" "sizes_fit_u32 e"
    and es: "list_all (entry_invariant b) es" "list_all sizes_fit_u32 es"
    by simp_all
  from final_step_emits [OF Cons.prems(1) e] obtain s1 pss1 cur1 where
    s1: "final_step (b_raw b) e s = Inr s1" "emission_invariant hdr s1 pss1 cur1"
      "concat pss1 @ cur1 = concat pss @ cur @ (if is_large e then [] else [entry_pair b e])"
      "large_count s1 = large_count s + (if is_large e then 1 else 0)"
    by blast
  from Cons.IH [OF s1(2) es] obtain s' pss' cur' where
    s': "final_loop (b_raw b) es s1 = Inr s'" "emission_invariant hdr s' pss' cur'"
      "concat pss' @ cur' = concat pss1 @ cur1 @ map (entry_pair b) (filter (\<lambda>e. \<not> is_large e) es)"
      "large_count s' = large_count s1 + length (filter is_large es)"
    by blast
  have "concat pss' @ cur' = concat pss @ cur @ map (entry_pair b) (filter (\<lambda>e. \<not> is_large e) (e # es))"
    using s1(3) s'(3) by (simp add: append_assoc [symmetric] del: append_assoc)
  moreover have "large_count s' = large_count s + length (filter is_large (e # es))"
    using s1(4) s'(4) by simp
  moreover have "final_loop (b_raw b) (e # es) s = Inr s'"
    using s1(1) s'(1) by simp
  ultimately show ?case using s'(2) by blast
qed



text \<open>
  C7, amended. During block emission, for entries that satisfy the entry invariant and
  whose two sizes add up without overflowing 32 bits: \<^verbatim>\<open>WriteFinalData\<close> succeeds; every
  entry with \<open>key_size + value_size > kEntrySizeLimit = kBlockSizeMin / 2 = 8192\<close> is
  skipped and counted in \<^verbatim>\<open>large_count\<close>; every entry with
  \<open>key_size + value_size \<le> 8192\<close> is emitted into a block. The blocks written hold
  lists of pairs \<open>pss\<close>, none empty, that together are exactly the pairs of the entries
  that are not large; the block index is the one of these blocks, each with the key of
  its last pair; and the file is the header, the marshalled blocks and the marshalled
  block index, so that every byte of it after the header comes from a pair that is not
  large.
\<close>

theorem WriteFinalData_emits_small_entries:
  assumes "list_all (entry_invariant b) (b_index b)" and "list_all sizes_fit_u32 (b_index b)"
  shows "\<exists>s pss. WriteFinalData b hdr = Inr s
     \<and> large_count s = length (filter is_large (b_index b))
     \<and> concat pss = map (entry_pair b) (filter (\<lambda>e. \<not> is_large e) (b_index b))
     \<and> list_all (\<lambda>ps. ps \<noteq> [] \<and> pairs_size ps \<le> kBlockSizeMax) pss
     \<and> fs_index s = index_of pss
     \<and> out_file s = hdr @ concat (map (\<lambda>ps. block_Marshal (block_of ps)) pss)
                      @ index_Marshal (index_of pss)
     \<and> block_count s = length pss"
proof -
  let ?s0 = "\<lparr> fs_index = empty_index, fs_block = empty_block, last_key = [],
               block_count = 0, large_count = 0, out_file = hdr \<rparr>"
  have "emission_invariant hdr ?s0 [] []"
    by (simp add: emission_invariant_def block_of_def)
  from final_loop_emits [OF this assms] obtain s1 pss1 cur1 where
    loop: "final_loop (b_raw b) (b_index b) ?s0 = Inr s1"
    and inv: "emission_invariant hdr s1 pss1 cur1"
    and emitted: "concat pss1 @ cur1 = map (entry_pair b) (filter (\<lambda>e. \<not> is_large e) (b_index b))"
    and large: "large_count s1 = length (filter is_large (b_index b))"
    by auto
  from inv have blk: "fs_block s1 = block_of cur1" and fit: "pairs_size cur1 \<le> kBlockSizeMax"
    and out: "out_file s1 = hdr @ concat (map (\<lambda>ps. block_Marshal (block_of ps)) pss1)"
    and pss1: "list_all (\<lambda>ps. ps \<noteq> [] \<and> pairs_size ps \<le> kBlockSizeMax) pss1"
    and count: "block_count s1 = length pss1"
    and lk: "cur1 = [] \<or> last_key s1 = fst (last cur1)"
    and ix1: "fs_index s1 = index_of pss1"
    by (simp_all add: emission_invariant_def)
  let ?pss = "if cur1 = [] then pss1 else pss1 @ [cur1]"
  let ?s2 = "if cur1 = [] then s1
    else s1 \<lparr> fs_index := index_Add (of_nat (length (block_Marshal (block_of cur1)))) (last_key s1) (fs_index s1),
              out_file := out_file s1 @ block_Marshal (block_of cur1),
              block_count := block_count s1 + 1 \<rparr>"
  let ?s3 = "snd (WriteIndex ?s2)"
  have final: "WriteFinalData b hdr = Inr ?s3"
    using block_Marshal_empty_iff [OF fit]
    by (simp add: WriteFinalData_def loop WriteBlock_def blk Let_def)
  have ix: "fs_index ?s3 = fs_index ?s2" "large_count ?s3 = large_count ?s2"
    "block_count ?s3 = block_count ?s2"
    "out_file ?s3 = out_file ?s2 @ index_Marshal (fs_index ?s2)"
    by (simp_all add: WriteIndex_def Let_def)
  have idx: "fs_index ?s2 = index_of ?pss"
    using lk ix1 by auto
  have "large_count ?s3 = length (filter is_large (b_index b))"
    using large by (simp add: ix)
  moreover have "concat ?pss = map (entry_pair b) (filter (\<lambda>e. \<not> is_large e) (b_index b))"
    using emitted by auto
  moreover have "list_all (\<lambda>ps. ps \<noteq> [] \<and> pairs_size ps \<le> kBlockSizeMax) ?pss"
    using pss1 fit by simp
  moreover have "fs_index ?s3 = index_of ?pss"
    using idx by (simp only: ix)
  moreover have "out_file ?s3 = hdr @ concat (map (\<lambda>ps. block_Marshal (block_of ps)) ?pss)
                      @ index_Marshal (index_of ?pss)"
    using out by (simp add: ix(4) idx)
  moreover have "block_count ?s3 = length ?pss"
    using count by (simp add: ix)
  ultimately show ?thesis using final by blast
qed

theorem WriteFinalData_emits_small_entries_witness:
  "list_all (entry_invariant mixed_builder) (b_index mixed_builder)
   \<and> list_all sizes_fit_u32 (b_index mixed_builder)
   \<and> filter is_large (b_index mixed_builder)
       = [\<lparr> offset = 4, value_size = 8192, key_size = 1, prefix = [0x62] \<rparr>]
   \<and> (\<exists>s. WriteFinalData mixed_builder (built_header 0 0 0) = Inr s
        \<and> large_count s = 1
        \<and> block_count s = 1
        \<and> fs_index s = \<lparr> ix_block_size = [13], ix_key_size = [1], ix_key_data = [0x61] \<rparr>
        \<and> out_file s = built_header 0 0 0
             @ [1, 1, 0, 0, 0, 3, 0, 0, 0, 0x61, 0x79, 0x79, 0x79]
             @ [1, 13, 0, 0, 0, 1, 0, 0, 0, 0x61])"
proof -
  let ?p = "([0x61], [0x79, 0x79, 0x79]) :: byte list \<times> byte list"
  have a: "list_all (entry_invariant mixed_builder) (b_index mixed_builder)"
    by (simp add: mixed_builder_def entry_invariant_def entry_key_def)
  have b: "list_all sizes_fit_u32 (b_index mixed_builder)"
    by (simp add: mixed_builder_def sizes_fit_u32_def)
  have c: "filter is_large (b_index mixed_builder)
      = [\<lparr> offset = 4, value_size = 8192, key_size = 1, prefix = [0x62] \<rparr>]"
    "filter (\<lambda>e. \<not> is_large e) (b_index mixed_builder)
      = [\<lparr> offset = 0, value_size = 3, key_size = 1, prefix = [0x61] \<rparr>]"
    by (simp_all add: mixed_builder_def is_large_def kEntrySizeLimit_def kBlockSizeMin_def)
  have d: "entry_pair mixed_builder \<lparr> offset = 0, value_size = 3, key_size = 1, prefix = [0x61] \<rparr>
      = ?p"
    by (simp add: mixed_builder_def entry_pair_def entry_key_def entry_value_def)
  from WriteFinalData_emits_small_entries [OF a b, of "built_header 0 0 0"]
  obtain s pss where s: "WriteFinalData mixed_builder (built_header 0 0 0) = Inr s"
    "large_count s = 1" "concat pss = [?p]"
    "list_all (\<lambda>ps. ps \<noteq> [] \<and> pairs_size ps \<le> kBlockSizeMax) pss"
    "fs_index s = index_of pss"
    "out_file s = built_header 0 0 0 @ concat (map (\<lambda>ps. block_Marshal (block_of ps)) pss)
                      @ index_Marshal (index_of pss)"
    "block_count s = length pss"
    by (auto simp add: c d)
  have "\<And>ps. ps \<in> set pss \<Longrightarrow> ps \<noteq> []"
    using s(4) by (simp add: list_all_iff)
  with s(3) have pss: "pss = [[?p]]"
    by (rule concat_singleton)
  have blk: "block_Marshal (block_of [?p]) = [1, 1, 0, 0, 0, 3, 0, 0, 0, 0x61, 0x79, 0x79, 0x79]"
    by (simp add: block_of_def block_Add_def empty_block_def block_Marshal_def Let_def
        kBlockSizeMax_def kBlockSizeMin_def varint_value_encode_1 le_bytes_4)
  have ix: "index_of [[?p]] = \<lparr> ix_block_size = [13], ix_key_size = [1], ix_key_data = [0x61] \<rparr>"
    using index_of_snoc [of "[]" "[?p]"] by (simp add: blk index_Add_def empty_index_def)
  have mar: "index_Marshal \<lparr> ix_block_size = [13], ix_key_size = [1], ix_key_data = [0x61] \<rparr>
      = [1, 13, 0, 0, 0, 1, 0, 0, 0, 0x61]"
    by (simp add: index_Marshal_def Let_def varint_value_encode_1 le_bytes_4)
  have "WriteFinalData mixed_builder (built_header 0 0 0) = Inr s
        \<and> large_count s = 1
        \<and> block_count s = 1
        \<and> fs_index s = \<lparr> ix_block_size = [13], ix_key_size = [1], ix_key_data = [0x61] \<rparr>
        \<and> out_file s = built_header 0 0 0
             @ [1, 1, 0, 0, 0, 3, 0, 0, 0, 0x61, 0x79, 0x79, 0x79]
             @ [1, 13, 0, 0, 0, 1, 0, 0, 0, 0x61]"
    using s(1,2,5,6,7) by (simp add: pss blk ix mar)
  then have "\<exists>s. WriteFinalData mixed_builder (built_header 0 0 0) = Inr s
        \<and> large_count s = 1
        \<and> block_count s = 1
        \<and> fs_index s = \<lparr> ix_block_size = [13], ix_key_size = [1], ix_key_data = [0x61] \<rparr>
        \<and> out_file s = built_header 0 0 0
             @ [1, 1, 0, 0, 0, 3, 0, 0, 0, 0x61, 0x79, 0x79, 0x79]
             @ [1, 13, 0, 0, 0, 1, 0, 0, 0, 0x61]"
    by (rule exI)
  then show ?thesis using a b c(1) by simp
qed

text \<open>
  C7 as stated fails: a pair of 1 + 8192 = 8193 bytes is below 16 KiB, and the file built
  from it is the bare header, with no block.
\<close>

theorem entry_of_8193_bytes_is_skipped:
  "length [0x61 :: byte] + length (replicate 8192 (0x78 :: byte)) \<le> 16384
   \<and> build_table 255 1 (default_options 0) 0 [([0x61], replicate 8192 0x78)]
       = Inr (built_header 0 0 0)"
  by (simp add: build_defs Let_def)

section \<open>The builder keeps the entry invariant\<close>

text \<open>
  The hypotheses of the theorems on \<^verbatim>\<open>Compare\<close> and on block emission hold in every
  builder that \<^verbatim>\<open>Add\<close> and \<^verbatim>\<open>SortEntries\<close> produce, as long as the spill file stays below
  \<open>2 ^ 63\<close> bytes and no pair reaches \<open>2 ^ 32\<close> bytes; and for such inputs, with
  non-empty keys and values, the build succeeds. The first lemma reads the file
  \<open>two_record_file\<close>, which is in the reader's layout, back: the reader returns its two
  pairs.
\<close>

lemma two_record_table_scan:
  "scan_table (Suc (Suc (Suc 0))) two_record_table
     = Some (Inr [([0x61], [0x78, 0x78, 0x78]), ([0x62], [0x79, 0x79, 0x79])])"
  by (simp add: scan_table_def SeekToFirst_def Seek_def ReadRow_def two_record_table_def
      two_record_file_bytes header_index_offset_def sizeof_header_def iovec_bytes_def
      mapped_pages_short)

lemma entry_invariant_grow:
  assumes "entry_invariant b e" and "b_raw b' = b_raw b @ ext"
    and "b_key_size_max b \<le> b_key_size_max b'"
  shows "entry_invariant b' e"
proof -
  have "unat (offset e) + unat (key_size e) \<le> length (b_raw b)"
    using assms(1) by (simp add: entry_invariant_def)
  then have "entry_key b' e = entry_key b e"
    by (simp add: entry_key_def assms(2))
  then show ?thesis
    using assms by (auto simp add: entry_invariant_def)
qed

lemma unat_of_nat_u64: "n < 2 ^ 63 \<Longrightarrow> unat (of_nat n :: u64) = n"
  by (simp add: unat_of_nat)

lemma unat_of_nat_u32: "n \<le> 2 ^ 32 - 1 \<Longrightarrow> unat (of_nat n :: u32) = n"
  by (simp add: unat_of_nat)

lemma Add_invariant:
  assumes inv: "builder_invariant b" and add: "Add k v b = Inr b'"
    and len: "length (b_raw b') < 2 ^ 63" and total: "length k + length v < 2 ^ 32"
  shows "builder_invariant b'"
proof -
  from add have k: "length k \<le> 2 ^ 32 - 1" and v: "length v \<le> 2 ^ 32 - 1"
    by (auto simp add: Add_def AddEntry_def split: if_splits sum.splits)
  let ?e = "\<lparr> offset = b_offset b, value_size = of_nat (length v),
                      key_size = of_nat (length k), prefix = take (min 24 (length k)) k \<rparr>"
  from add k v have b': "b' = b \<lparr> b_index := b_index b @ [?e],
                     b_offset := b_offset b + of_nat (length k) + of_nat (length v),
                     b_key_size_max := (if unat (b_key_size_max b) < length k
                                       then of_nat (length k) else b_key_size_max b),
                     b_raw := b_raw b @ k @ v \<rparr>"
    by (auto simp add: Add_def AddEntry_def WriteEntryData_def Let_def split: if_splits)
  have raw: "b_raw b' = b_raw b @ (k @ v)" by (simp add: b')
  have ks: "unat (of_nat (length k) :: u32) = length k" by (rule unat_of_nat_u32 [OF k])
  have vs: "unat (of_nat (length v) :: u32) = length v" by (rule unat_of_nat_u32 [OF v])
  have off: "unat (b_offset b) = length (b_raw b)" using inv by (simp add: builder_invariant_def)
  have mx: "b_key_size_max b \<le> b_key_size_max b'"
    by (simp add: b' word_le_nat_alt ks)
  have old: "list_all (entry_invariant b') (b_index b)"
    using inv entry_invariant_grow [OF _ raw mx]
    by (auto simp add: builder_invariant_def list_all_iff)
  have "entry_key b' ?e = k"
    by (simp add: entry_key_def b' ks off)
  then have new: "entry_invariant b' ?e"
    using len by (simp add: entry_invariant_def ks vs off word_le_nat_alt) (simp add: b' ks)
  have "unat (b_offset b') = length (b_raw b')"
  proof -
    have "b_offset b = of_nat (length (b_raw b))"
      using off by (metis of_nat_unat ucast_id)
    then have "b_offset b' = of_nat (length (b_raw b) + length k + length v)"
      by (simp add: b')
    moreover have "length (b_raw b) + length k + length v < 2 ^ 63"
      using len by (simp add: b')
    ultimately show ?thesis by (simp only: unat_of_nat_u64) (simp add: b')
  qed
  moreover have "sizes_fit_u32 ?e" using total by (simp add: sizes_fit_u32_def ks vs)
  ultimately show ?thesis
    using inv old new len by (simp add: builder_invariant_def b')
qed


lemma Add_raw_grows: "Add k v b = Inr b' \<Longrightarrow> length (b_raw b) \<le> length (b_raw b')"
  by (auto simp add: Add_def AddEntry_def WriteEntryData_def Let_def split: if_splits sum.splits)

lemma add_all_raw_grows: "add_all kvs b = Inr b' \<Longrightarrow> length (b_raw b) \<le> length (b_raw b')"
proof (induction kvs arbitrary: b)
  case Nil
  then show ?case by simp
next
  case (Cons kv kvs)
  obtain k v where kv: "kv = (k, v)" by (cases kv)
  with Cons.prems obtain b1 where b1: "Add k v b = Inr b1" "add_all kvs b1 = Inr b'"
    by (auto split: sum.splits)
  from Add_raw_grows [OF b1(1)] Cons.IH [OF b1(2)] show ?case by simp
qed

lemma add_all_invariant:
  assumes "builder_invariant b" and "add_all kvs b = Inr b'"
    and "length (b_raw b') < 2 ^ 63"
    and "list_all (\<lambda>kv. length (fst kv) + length (snd kv) < 2 ^ 32) kvs"
  shows "builder_invariant b'"
  using assms
proof (induction kvs arbitrary: b)
  case Nil
  then show ?case by simp
next
  case (Cons kv kvs)
  obtain k v where kv: "kv = (k, v)" by (cases kv)
  with Cons.prems obtain b1 where b1: "Add k v b = Inr b1" "add_all kvs b1 = Inr b'"
    by (auto split: sum.splits)
  have "length (b_raw b1) < 2 ^ 63"
    using add_all_raw_grows [OF b1(2)] Cons.prems(3) by simp
  moreover have "length k + length v < 2 ^ 32" using Cons.prems(4) kv by simp
  ultimately have "builder_invariant b1"
    using Add_invariant [OF Cons.prems(1) b1(1)] by simp
  from Cons.IH [OF this b1(2) Cons.prems(3)] Cons.prems(4) show ?case by simp
qed

lemma new_WriteOnceBuilder_invariant:
  "new_WriteOnceBuilder kDefault kLast options = Inr b \<Longrightarrow> builder_invariant b"
  by (auto simp add: new_WriteOnceBuilder_def builder_invariant_def Let_def split: if_splits)

lemma Compare_total:
  assumes "entry_invariant b lhs" and "entry_invariant b rhs"
  shows "\<exists>r. Compare b lhs rhs = Inr r"
proof -
  have "RandomIO_Read (b_raw b) (offset lhs) (unat (key_size lhs)) = Inr (entry_key b lhs)"
    "RandomIO_Read (b_raw b) (offset rhs) (unat (key_size rhs)) = Inr (entry_key b rhs)"
    using assms by (simp_all add: entry_invariant_def entry_key_def RandomIO_Read_ok)
  moreover have "\<not> b_key_size_max b < key_size lhs" "\<not> b_key_size_max b < key_size rhs"
    using assms by (simp_all add: entry_invariant_def not_less)
  ultimately show ?thesis by (simp add: Compare_def Let_def)
qed

lemma insert_entry_total:
  assumes "entry_invariant b x" and "list_all (entry_invariant b) ys"
  shows "\<exists>zs. insert_entry b x ys = Inr zs \<and> set zs = insert x (set ys)"
  using assms(2)
proof (induction ys)
  case Nil
  then show ?case by simp
next
  case (Cons y ys)
  then have y: "entry_invariant b y" and ys: "list_all (entry_invariant b) ys" by simp_all
  from Cons.IH [OF ys] obtain zs where zs: "insert_entry b x ys = Inr zs" "set zs = insert x (set ys)"
    by blast
  from Compare_total [OF y assms(1)] obtain r where "Compare b y x = Inr r" by blast
  then show ?case
    using zs by (cases r) auto
qed

lemma stable_sort_total:
  assumes "list_all (entry_invariant b) es"
  shows "\<exists>es'. stable_sort b es = Inr es' \<and> set es' = set es"
  using assms
proof (induction es)
  case Nil
  then show ?case by simp
next
  case (Cons e es)
  then have e: "entry_invariant b e" and es: "list_all (entry_invariant b) es" by simp_all
  from Cons.IH [OF es] obtain es' where es': "stable_sort b es = Inr es'" "set es' = set es"
    by blast
  then have "list_all (entry_invariant b) es'" using es by (simp add: list_all_iff)
  from insert_entry_total [OF e this] es' show ?case by auto
qed

lemma entry_invariant_index:
  "entry_invariant (b \<lparr> b_index := es \<rparr>) e = entry_invariant b e"
  by (simp add: entry_invariant_def entry_key_def)

lemma SortEntries_invariant:
  assumes "builder_invariant b"
  shows "\<exists>b'. SortEntries b = Inr b' \<and> builder_invariant b'
    \<and> set (b_index b') = set (b_index b) \<and> b_raw b' = b_raw b
    \<and> b_options b' = b_options b \<and> b_compression b' = b_compression b"
proof -
  from assms have "list_all (entry_invariant b) (b_index b)"
    by (simp add: builder_invariant_def)
  from stable_sort_total [OF this] obtain es where
    es: "stable_sort b (b_index b) = Inr es" "set es = set (b_index b)" by blast
  have "builder_invariant (b \<lparr> b_index := es \<rparr>)"
    using assms es(2) by (simp add: builder_invariant_def list_all_iff entry_invariant_index)
  then show ?thesis using es by (simp add: SortEntries_def)
qed

lemma Build_succeeds:
  assumes "builder_invariant b" and "opt_file_flags (b_options b) AND NOT O_CLOEXEC = 0"
  shows "\<exists>built. Build stack b = Inr built"
proof -
  from SortEntries_invariant [OF assms(1)] obtain b' where
    b': "SortEntries b = Inr b'" "builder_invariant b'" "b_options b' = b_options b"
    by blast
  then obtain hdr where hdr: "CreateFile stack b' = Inr hdr"
    using assms(2) by (simp add: CreateFile_def)
  from b'(2) have "list_all (entry_invariant b') (b_index b')" "list_all sizes_fit_u32 (b_index b')"
    by (simp_all add: builder_invariant_def)
  moreover have "emission_invariant hdr
      \<lparr> fs_index = empty_index, fs_block = empty_block, last_key = [],
        block_count = 0, large_count = 0, out_file = hdr \<rparr> [] []"
    by (simp add: emission_invariant_def block_of_def)
  ultimately obtain s where "final_loop (b_raw b') (b_index b')
      \<lparr> fs_index = empty_index, fs_block = empty_block, last_key = [],
        block_count = 0, large_count = 0, out_file = hdr \<rparr> = Inr s"
    using final_loop_emits by blast
  then have "\<exists>s'. WriteFinalData b' hdr = Inr s'"
    by (simp add: WriteFinalData_def Let_def split: prod.splits)
  then show ?thesis using b'(1) hdr by (auto simp add: Build_def)
qed


lemma add_all_succeeds:
  assumes "list_all (\<lambda>kv. fst kv \<noteq> [] \<and> snd kv \<noteq> []
             \<and> length (fst kv) + length (snd kv) < 2 ^ 32) kvs"
  shows "\<exists>b'. add_all kvs b = Inr b'
    \<and> b_raw b' = b_raw b @ concat (map (\<lambda>kv. fst kv @ snd kv) kvs)
    \<and> b_options b' = b_options b"
  using assms
proof (induction kvs arbitrary: b)
  case Nil
  then show ?case by simp
next
  case (Cons kv kvs)
  obtain k v where kv: "kv = (k, v)" by (cases kv)
  with Cons.prems have k: "k \<noteq> []" "v \<noteq> []" "length k + length v < 2 ^ 32"
    and rest: "list_all (\<lambda>kv. fst kv \<noteq> [] \<and> snd kv \<noteq> []
             \<and> length (fst kv) + length (snd kv) < 2 ^ 32) kvs"
    by simp_all
  then obtain b1 where b1: "Add k v b = Inr b1" "b_raw b1 = b_raw b @ k @ v"
    "b_options b1 = b_options b"
    by (simp add: Add_def AddEntry_def WriteEntryData_def Let_def)
  from Cons.IH [OF rest, of b1] b1 kv show ?case by auto
qed

lemma build_table_succeeds:
  assumes "opt_file_flags options AND NOT O_CLOEXEC = 0"
    and "(if opt_compression options = kDefault then kTableCompressionNone
          else opt_compression options) \<le> kLast"
    and "list_all (\<lambda>kv. fst kv \<noteq> [] \<and> snd kv \<noteq> []
             \<and> length (fst kv) + length (snd kv) < 2 ^ 32) kvs"
    and "length (concat (map (\<lambda>kv. fst kv @ snd kv) kvs)) < 2 ^ 63"
  shows "\<exists>built. build_table kDefault kLast options stack kvs = Inr built"
proof -
  from assms(2) obtain b0 where b0: "new_WriteOnceBuilder kDefault kLast options = Inr b0"
    "b_raw b0 = []" "b_options b0 = options"
    by (simp add: new_WriteOnceBuilder_def Let_def)
  from add_all_succeeds [OF assms(3), of b0] obtain b1 where
    b1: "add_all kvs b0 = Inr b1" "b_raw b1 = concat (map (\<lambda>kv. fst kv @ snd kv) kvs)"
      "b_options b1 = options"
    using b0 by auto
  have "list_all (\<lambda>kv. length (fst kv) + length (snd kv) < 2 ^ 32) kvs"
    using assms(3) by (simp add: list_all_iff)
  then have "builder_invariant b1"
    using add_all_invariant [OF new_WriteOnceBuilder_invariant [OF b0(1)] b1(1)] assms(4) b1(2)
    by simp
  from Build_succeeds [OF this, of stack] assms(1) b1(3) obtain built where
    "Build stack b1 = Inr built" by auto
  then show ?thesis by (simp add: build_table_def b0(1) b1(1))
qed

end
